theory Spec2Isabelle
  imports Complex_Main "HOL-Library.Word"
begin

unbundle bit_operations_syntax

section \<open>The waitlist simulation kernel of app.js\<close>

text \<open>
  The kernel is the trio \<open>mulberry32\<close>, \<open>poisson\<close>, \<open>simulate\<close>. The three copies
  in the repository differ in layout only, so one embedding covers them.

  JavaScript numbers are modelled exactly: a finite number is a \<open>real\<close>, a loop counter
  or an array length is a \<open>nat\<close>, and \<open>Math.exp\<close> is \<open>exp\<close>. Rounding of IEEE doubles
  is not part of the model (integer-valued doubles are exact below \<open>2 ^ 53\<close>). What is
  written out: the 32-bit wrap of the bitwise operators and of \<open>Math.imul\<close>, the
  RangeError of \<open>new Array\<close>, the \<open>undefined\<close> of a read past the end of an array and
  the NaN it makes of a sum, \<open>null\<close> statistics, and a loop that may not return.
\<close>

subsection \<open>Data\<close>

record params =
  arrivalRate :: real
  capacityPerDay :: real
  dnaRate :: real
  rebookRate :: real
  rebookDelay :: real
  days :: real
  warmup :: real
  seed :: real

text \<open>The local variables of \<open>simulate\<close>; \<open>rng_a\<close> is the variable \<open>a\<close> captured by the
  closure that \<open>mulberry32\<close> returns.\<close>

record sim_state =
  rng_a :: int
  futureAdds :: "nat list"
  queue :: "nat list"
  queueSizes :: "nat list"
  waits :: "int list"
  totalSlots :: nat
  usedSlots :: nat

text \<open>A statistic is a number, \<open>null\<close>, or \<open>undefined\<close> (an array read out of range).\<close>

datatype stat = Null | Undefined | Num real

record metrics =
  utilisation :: real
  meanWait :: stat
  medianWait :: stat
  p90Wait :: stat
  within14 :: stat
  within28 :: stat
  within42 :: stat
  nSeen :: nat

text \<open>The returned object; its fields \<open>queueSizes\<close>, \<open>waits\<close> and \<open>metrics\<close> carry
  the prefix \<open>out_\<close> here, as the state record has the plain names.\<close>

record result =
  out_queueSizes :: "nat list"
  out_waits :: "int list"
  out_metrics :: metrics

datatype error = RangeError

subsection \<open>Random source\<close>

text \<open>\<open>x >>> 0\<close>: truncate towards zero, then reduce modulo \<open>2 ^ 32\<close>.\<close>

definition ToUint32 :: "real \<Rightarrow> int" where
  "ToUint32 x = (if 0 \<le> x then \<lfloor>x\<rfloor> else \<lceil>x\<rceil>) mod 2 ^ 32"

text \<open>\<open>mulberry32 seed\<close> is the initial value of the captured variable.\<close>

definition mulberry32 :: "real \<Rightarrow> int" where
  "mulberry32 sd = ToUint32 sd"

text \<open>One call of the closure: the draw and the new value of \<open>a\<close>. The addition is
  an addition of numbers (no wrap, and exact while \<open>a < 2 ^ 53\<close>, which holds for the
  first 4.9 million draws); the bitwise operators and \<open>Math.imul\<close> see their operands
  modulo \<open>2 ^ 32\<close>.\<close>

definition mulberry32_next :: "int \<Rightarrow> real \<times> int" where
  "mulberry32_next a0 =
     (let a1 = a0 + 0x6D2B79F5;
          w = (word_of_int a1 :: 32 word);
          t = (w XOR drop_bit 15 w) * (1 OR w);
          t' = t XOR (t + (t XOR drop_bit 7 t) * (61 OR t))
      in (real (unat (t' XOR drop_bit 14 t')) / 4294967296, a1))"

subsection \<open>Poisson sampler\<close>

text \<open>The \<open>do ... while\<close> loop of \<open>poisson\<close>, over any source \<open>rand\<close> with state \<open>'s\<close>.
  \<open>None\<close> is a loop that never ends.\<close>

partial_function (option) poisson_loop ::
  "('s \<Rightarrow> real \<times> 's) \<Rightarrow> real \<Rightarrow> nat \<Rightarrow> real \<Rightarrow> 's \<Rightarrow> (nat \<times> 's) option" where
  "poisson_loop rand L k p s =
     (let k' = k + 1;
          p' = p * fst (rand s);
          s' = snd (rand s)
      in if p' > L then poisson_loop rand L k' p' s' else Some (k' - 1, s'))"

definition poisson :: "real \<Rightarrow> ('s \<Rightarrow> real \<times> 's) \<Rightarrow> 's \<Rightarrow> (nat \<times> 's) option" where
  "poisson lambda rand s =
     (if lambda \<le> 0 then Some (0, s)
      else poisson_loop rand (exp (- lambda)) 0 1 s)"

subsection \<open>Simulation\<close>

text \<open>\<open>new Array(len).fill(0)\<close>: a RangeError unless \<open>len\<close> is an integer in
  \<open>[0, 2 ^ 32 - 1]\<close>.\<close>

definition new_Array_fill0 :: "real \<Rightarrow> error + nat list" where
  "new_Array_fill0 len =
     (if of_int \<lfloor>len\<rfloor> = len \<and> 0 \<le> len \<and> len < 2 ^ 32
      then Inr (replicate (nat \<lfloor>len\<rfloor>) 0) else Inl RangeError)"

text \<open>The body of the service loop after the emptiness check: \<open>enteredDay\<close> has been
  shifted off the queue.\<close>

definition service_step :: "'a params_scheme \<Rightarrow> nat \<Rightarrow> nat \<Rightarrow> sim_state \<Rightarrow> sim_state" where
  "service_step P d enteredDay st =
     (let (u1, a1) = mulberry32_next (rng_a st);
          isDNA = (u1 < dnaRate P / 100)
      in if isDNA then
           (let (u2, a2) = mulberry32_next a1;
                willRebook = (u2 < rebookRate P / 100)
            in if willRebook then
                 (let returnDay = d + nat (max 0 \<lfloor>rebookDelay P\<rfloor>)
                  in if returnDay < length (futureAdds st)
                     then st\<lparr>rng_a := a2,
                             futureAdds := (futureAdds st)[returnDay := futureAdds st ! returnDay + 1]\<rparr>
                     else st\<lparr>rng_a := a2\<rparr>)
               else st\<lparr>rng_a := a2\<rparr>)
         else
           (let wait = int d - int enteredDay
            in if warmup P \<le> real d then st\<lparr>rng_a := a1, waits := waits st @ [wait]\<rparr>
               else st\<lparr>rng_a := a1\<rparr>))"

text \<open>\<open>for (let s = 0; s < cap; s++)\<close>, counted by the iterations that remain.\<close>

fun service_loop :: "'a params_scheme \<Rightarrow> nat \<Rightarrow> nat \<Rightarrow> sim_state \<Rightarrow> sim_state" where
  "service_loop P d 0 st = st"
| "service_loop P d (Suc n) st =
     (case queue st of
        [] \<Rightarrow> st
      | enteredDay # rest \<Rightarrow>
          service_loop P d n
            (service_step P d enteredDay (st\<lparr>usedSlots := usedSlots st + 1, queue := rest\<rparr>)))"

definition cap :: "'a params_scheme \<Rightarrow> nat" where
  "cap P = nat (max 0 \<lfloor>capacityPerDay P\<rfloor>)"

text \<open>\<open>poisson(...) + futureAdds[d]\<close>: past the end of the array the read is
  \<open>undefined\<close> and the sum NaN, here \<open>None\<close>.\<close>

definition arrivals :: "nat \<Rightarrow> nat list \<Rightarrow> nat \<Rightarrow> nat option" where
  "arrivals k fa d = (if d < length fa then Some (k + fa ! d) else None)"

text \<open>\<open>for (let i = 0; i < arrivals; i++) queue.push(d)\<close>: no iteration when
  \<open>arrivals\<close> is NaN.\<close>

definition push_arrivals :: "nat option \<Rightarrow> nat \<Rightarrow> nat list \<Rightarrow> nat list" where
  "push_arrivals arr d q = q @ replicate (case arr of None \<Rightarrow> 0 | Some n \<Rightarrow> n) d"

text \<open>One iteration of the day loop.\<close>

definition day_body :: "'a params_scheme \<Rightarrow> nat \<Rightarrow> sim_state \<Rightarrow> sim_state option" where
  "day_body P d st =
     (case poisson (arrivalRate P) mulberry32_next (rng_a st) of
        None \<Rightarrow> None
      | Some (k, a1) \<Rightarrow>
          (let st1 = st\<lparr>rng_a := a1,
                        queue := push_arrivals (arrivals k (futureAdds st) d) d (queue st),
                        totalSlots := totalSlots st + cap P\<rparr>;
               st2 = service_loop P d (cap P) st1
           in Some (st2\<lparr>queueSizes := queueSizes st2 @ [length (queue st2)]\<rparr>)))"

function day_loop :: "'a params_scheme \<Rightarrow> nat \<Rightarrow> sim_state \<Rightarrow> sim_state option" where
  "day_loop P d st =
     (if real d < days P
      then (case day_body P d st of None \<Rightarrow> None | Some st' \<Rightarrow> day_loop P (Suc d) st')
      else Some st)"
  by pat_completeness auto
termination
proof (relation "measure (\<lambda>(P, d, st). nat \<lceil>days P\<rceil> - d)")
  show "wf (measure (\<lambda>(P :: 'a params_scheme, d, st :: sim_state). nat \<lceil>days P\<rceil> - d))"
    by simp
next
  fix P :: "'a params_scheme" and d :: nat and st x2 :: sim_state
  assume "real d < days P"
  then have "int d < \<lceil>days P\<rceil>"
    by (simp add: less_ceiling_iff)
  then show "((P, Suc d, x2), (P, d, st)) \<in> measure (\<lambda>(P, d, st). nat \<lceil>days P\<rceil> - d)"
    by simp
qed

declare day_loop.simps [simp del]

subsection \<open>Statistics\<close>

definition quantile :: "int list \<Rightarrow> real \<Rightarrow> stat" where
  "quantile ws q =
     (let n = length ws
      in if n = 0 then Null
         else (let idx = \<lfloor>(real n - 1) * q\<rfloor>
               in if 0 \<le> idx \<and> idx < int n then Num (real_of_int (ws ! nat idx))
                  else Undefined))"

definition mean :: "int list \<Rightarrow> stat" where
  "mean ws =
     (let n = length ws
      in if n \<noteq> 0 then Num (real_of_int (foldl (+) 0 ws) / real n) else Null)"

definition withinT :: "int list \<Rightarrow> real \<Rightarrow> stat" where
  "withinT ws t =
     (let n = length ws
      in if n \<noteq> 0 then Num (real (length (filter (\<lambda>w. real_of_int w \<le> t) ws)) / real n)
         else Null)"

text \<open>Everything after the day loop.\<close>

definition finalize :: "sim_state \<Rightarrow> result" where
  "finalize st =
     (let utilisation = (if totalSlots st > 0 then real (usedSlots st) / real (totalSlots st) else 0);
          ws = sort (waits st)
      in \<lparr>out_queueSizes = queueSizes st,
          out_waits = ws,
          out_metrics =
            \<lparr>utilisation = utilisation,
             meanWait = mean ws,
             medianWait = quantile ws (1 / 2),
             p90Wait = quantile ws (9 / 10),
             within14 = withinT ws 14,
             within28 = withinT ws 28,
             within42 = withinT ws 42,
             nSeen = length ws\<rparr>\<rparr>)"

definition init_state :: "'a params_scheme \<Rightarrow> nat list \<Rightarrow> sim_state" where
  "init_state P fa =
     \<lparr>rng_a = mulberry32 (seed P), futureAdds = fa, queue = [], queueSizes = [],
      waits = [], totalSlots = 0, usedSlots = 0\<rparr>"

text \<open>\<open>simulate\<close>: \<open>None\<close> when it does not return, \<open>Some (Inl e)\<close> when it throws.\<close>

definition simulate :: "'a params_scheme \<Rightarrow> (error + result) option" where
  "simulate P =
     (case new_Array_fill0 (days P + rebookDelay P + 2) of
        Inl e \<Rightarrow> Some (Inl e)
      | Inr fa \<Rightarrow>
          (case day_loop P 0 (init_state P fa) of
             None \<Rightarrow> None
           | Some st \<Rightarrow> Some (Inr (finalize st))))"

subsection \<open>Notions used to state the properties\<close>

text \<open>The state of a source after \<open>n\<close> draws, and the accumulator of \<open>poisson\<close> after
  \<open>n\<close> draws: the product of the first \<open>n\<close> draws, starting at 1.\<close>

fun source_iter :: "('s \<Rightarrow> real \<times> 's) \<Rightarrow> nat \<Rightarrow> 's \<Rightarrow> 's" where
  "source_iter rand 0 s = s"
| "source_iter rand (Suc n) s = source_iter rand n (snd (rand s))"

fun acc :: "('s \<Rightarrow> real \<times> 's) \<Rightarrow> nat \<Rightarrow> 's \<Rightarrow> real" where
  "acc rand 0 s = 1"
| "acc rand (Suc n) s = fst (rand s) * acc rand n (snd (rand s))"

text \<open>A source whose draws lie in \<open>[0, c]\<close> with \<open>c < 1\<close>. Every source of doubles in
  \<open>[0, 1)\<close> is one, with \<open>c = 1 - 1 / 2 ^ 53\<close>; \<open>mulberry32\<close> is one with
  \<open>c = 1 - 1 / 2 ^ 32\<close>.\<close>

definition bounded_source :: "('s \<Rightarrow> real \<times> 's) \<Rightarrow> real \<Rightarrow> bool" where
  "bounded_source rand c \<longleftrightarrow> c < 1 \<and> (\<forall>s. 0 \<le> fst (rand s) \<and> fst (rand s) \<le> c)"

text \<open>The number of iterations of \<open>for (let d = 0; d < days; d++)\<close>.\<close>

definition ndays :: "'a params_scheme \<Rightarrow> nat" where
  "ndays P = nat \<lceil>days P\<rceil>"

text \<open>The state after the first \<open>n\<close> iterations of the day loop, that is, at the start of
  day \<open>n\<close>.\<close>

primrec run_days :: "'a params_scheme \<Rightarrow> nat \<Rightarrow> sim_state \<Rightarrow> sim_state option" where
  "run_days P 0 st = Some st"
| "run_days P (Suc n) st =
     (case run_days P n st of None \<Rightarrow> None | Some st' \<Rightarrow> day_body P n st')"

definition sim_run :: "'a params_scheme \<Rightarrow> nat \<Rightarrow> sim_state option" where
  "sim_run P n =
     (case new_Array_fill0 (days P + rebookDelay P + 2) of
        Inl e \<Rightarrow> None
      | Inr fa \<Rightarrow> run_days P n (init_state P fa))"

text \<open>The quantities of one day of the run of \<open>simulate P\<close>: the slots used on day
  \<open>d\<close>, the Poisson draw of day \<open>d\<close>, and \<open>arrivals\<close> as the code computes it, the draw
  plus \<open>futureAdds[d]\<close> (\<open>None\<close> for NaN).\<close>

definition served :: "'a params_scheme \<Rightarrow> nat \<Rightarrow> nat" where
  "served P d =
     (case sim_run P d of
        None \<Rightarrow> 0
      | Some st \<Rightarrow> (case sim_run P (Suc d) of None \<Rightarrow> 0 | Some st' \<Rightarrow> usedSlots st' - usedSlots st))"

definition poisson_draw :: "'a params_scheme \<Rightarrow> nat \<Rightarrow> nat option" where
  "poisson_draw P d =
     (case sim_run P d of
        None \<Rightarrow> None
      | Some st \<Rightarrow> map_option fst (poisson (arrivalRate P) mulberry32_next (rng_a st)))"

definition day_arrivals :: "'a params_scheme \<Rightarrow> nat \<Rightarrow> nat option" where
  "day_arrivals P d =
     (case sim_run P d of
        None \<Rightarrow> None
      | Some st \<Rightarrow>
          (case poisson_draw P d of None \<Rightarrow> None | Some k \<Rightarrow> arrivals k (futureAdds st) d))"

text \<open>Day \<open>d\<close> of the run at the start of its service loop: the value of the source's
  variable and the queue, both after the day's arrivals; and the persons the day serves,
  the first \<open>cap\<close> of that queue.\<close>

definition day_rng :: "'a params_scheme \<Rightarrow> nat \<Rightarrow> int" where
  "day_rng P d =
     (case sim_run P d of
        None \<Rightarrow> 0
      | Some st \<Rightarrow>
          (case poisson (arrivalRate P) mulberry32_next (rng_a st) of
             None \<Rightarrow> 0 | Some (k, a1) \<Rightarrow> a1))"

definition day_queue :: "'a params_scheme \<Rightarrow> nat \<Rightarrow> nat list" where
  "day_queue P d =
     (case sim_run P d of
        None \<Rightarrow> []
      | Some st \<Rightarrow>
          (case poisson (arrivalRate P) mulberry32_next (rng_a st) of
             None \<Rightarrow> []
           | Some (k, a1) \<Rightarrow> push_arrivals (arrivals k (futureAdds st) d) d (queue st)))"

definition day_services :: "'a params_scheme \<Rightarrow> nat \<Rightarrow> nat list" where
  "day_services P d = take (cap P) (day_queue P d)"

text \<open>The persons who attend, among the persons \<open>es\<close> served in this order with the
  source's variable at \<open>a0\<close>: a service draws once, a person attends when that draw is
  not below \<open>dnaRate / 100\<close>, and a service of a person who does not attend draws once
  more, for the rebooking.\<close>

fun attended :: "'a params_scheme \<Rightarrow> int \<Rightarrow> nat list \<Rightarrow> nat list" where
  "attended P a0 [] = []"
| "attended P a0 (e # es) =
     (if fst (mulberry32_next a0) < dnaRate P / 100
      then attended P (snd (mulberry32_next (snd (mulberry32_next a0)))) es
      else e # attended P (snd (mulberry32_next a0)) es)"

text \<open>The entry days of the persons who attend on day \<open>d\<close>, and the waits the day
  is to record: service day minus entry day for each of them when the day is not before the
  warm-up, none otherwise.\<close>

definition day_attended :: "'a params_scheme \<Rightarrow> nat \<Rightarrow> nat list" where
  "day_attended P d = attended P (day_rng P d) (day_services P d)"

definition recorded_waits :: "'a params_scheme \<Rightarrow> nat \<Rightarrow> int list" where
  "recorded_waits P d =
     (if warmup P \<le> real d then map (\<lambda>e. int d - int e) (day_attended P d) else [])"

subsection \<open>The kernel with its store\<close>

text \<open>
  The same functions once more, now with what a call leaves behind. The world holds the
  variable \<open>a\<close> of every closure that \<open>mulberry32\<close> has made so far, one cell each;
  whatever else the page keeps between calls (its module variables) is the extension of
  the record. \<open>mulberry32\<close> allocates a cell and returns its index, \<open>rand\<close> reads and
  writes the cell of its closure, and the local variables of \<open>simulate\<close> form an \<open>env\<close>:
  \<open>rand_ref\<close> is the variable \<open>rand\<close>, a reference to the closure, and the other fields
  carry the suffix \<open>_v\<close>.
\<close>

record world =
  cells :: "int list"

record env =
  rand_ref :: nat
  futureAdds_v :: "nat list"
  queue_v :: "nat list"
  queueSizes_v :: "nat list"
  waits_v :: "int list"
  totalSlots_v :: nat
  usedSlots_v :: nat

definition mulberry32_w :: "real \<Rightarrow> 'w world_scheme \<Rightarrow> nat \<times> 'w world_scheme" where
  "mulberry32_w sd w = (length (cells w), w\<lparr>cells := cells w @ [ToUint32 sd]\<rparr>)"

definition rand_w :: "nat \<Rightarrow> 'w world_scheme \<Rightarrow> real \<times> 'w world_scheme" where
  "rand_w r w =
     (let (u, a1) = mulberry32_next (cells w ! r)
      in (u, w\<lparr>cells := (cells w)[r := a1]\<rparr>))"

definition service_step_w ::
  "'a params_scheme \<Rightarrow> nat \<Rightarrow> nat \<Rightarrow> env \<times> 'w world_scheme \<Rightarrow> env \<times> 'w world_scheme" where
  "service_step_w P d enteredDay ew =
     (let (e, w) = ew;
          (u1, w1) = rand_w (rand_ref e) w;
          isDNA = (u1 < dnaRate P / 100)
      in if isDNA then
           (let (u2, w2) = rand_w (rand_ref e) w1;
                willRebook = (u2 < rebookRate P / 100)
            in if willRebook then
                 (let returnDay = d + nat (max 0 \<lfloor>rebookDelay P\<rfloor>)
                  in if returnDay < length (futureAdds_v e)
                     then (e\<lparr>futureAdds_v :=
                              (futureAdds_v e)[returnDay := futureAdds_v e ! returnDay + 1]\<rparr>, w2)
                     else (e, w2))
               else (e, w2))
         else
           (let wait = int d - int enteredDay
            in if warmup P \<le> real d then (e\<lparr>waits_v := waits_v e @ [wait]\<rparr>, w1)
               else (e, w1)))"

fun service_loop_w ::
  "'a params_scheme \<Rightarrow> nat \<Rightarrow> nat \<Rightarrow> env \<times> 'w world_scheme \<Rightarrow> env \<times> 'w world_scheme" where
  "service_loop_w P d 0 ew = ew"
| "service_loop_w P d (Suc n) ew =
     (case queue_v (fst ew) of
        [] \<Rightarrow> ew
      | enteredDay # rest \<Rightarrow>
          service_loop_w P d n
            (service_step_w P d enteredDay
               ((fst ew)\<lparr>usedSlots_v := usedSlots_v (fst ew) + 1, queue_v := rest\<rparr>, snd ew)))"

definition day_body_w ::
  "'a params_scheme \<Rightarrow> nat \<Rightarrow> env \<times> 'w world_scheme \<Rightarrow> (env \<times> 'w world_scheme) option" where
  "day_body_w P d ew =
     (case poisson (arrivalRate P) (rand_w (rand_ref (fst ew))) (snd ew) of
        None \<Rightarrow> None
      | Some (k, w1) \<Rightarrow>
          (let e = fst ew;
               e1 = e\<lparr>queue_v := push_arrivals (arrivals k (futureAdds_v e) d) d (queue_v e),
                      totalSlots_v := totalSlots_v e + cap P\<rparr>;
               (e2, w2) = service_loop_w P d (cap P) (e1, w1)
           in Some (e2\<lparr>queueSizes_v := queueSizes_v e2 @ [length (queue_v e2)]\<rparr>, w2)))"

function day_loop_w ::
  "'a params_scheme \<Rightarrow> nat \<Rightarrow> env \<times> 'w world_scheme \<Rightarrow> (env \<times> 'w world_scheme) option" where
  "day_loop_w P d ew =
     (if real d < days P
      then (case day_body_w P d ew of None \<Rightarrow> None | Some ew' \<Rightarrow> day_loop_w P (Suc d) ew')
      else Some ew)"
  by pat_completeness auto
termination
proof (relation "measure (\<lambda>(P, d, ew). nat \<lceil>days P\<rceil> - d)")
  show "wf (measure (\<lambda>(P :: 'a params_scheme, d, ew :: env \<times> 'w world_scheme).
      nat \<lceil>days P\<rceil> - d))"
    by simp
next
  fix P :: "'a params_scheme" and d :: nat and ew x2 :: "env \<times> 'w world_scheme"
  assume "real d < days P"
  then have "int d < \<lceil>days P\<rceil>"
    by (simp add: less_ceiling_iff)
  then show "((P, Suc d, x2), (P, d, ew)) \<in> measure (\<lambda>(P, d, ew). nat \<lceil>days P\<rceil> - d)"
    by simp
qed

declare day_loop_w.simps [simp del]

definition finalize_w :: "env \<Rightarrow> result" where
  "finalize_w e =
     (let utilisation =
            (if totalSlots_v e > 0 then real (usedSlots_v e) / real (totalSlots_v e) else 0);
          ws = sort (waits_v e)
      in \<lparr>out_queueSizes = queueSizes_v e,
          out_waits = ws,
          out_metrics =
            \<lparr>utilisation = utilisation,
             meanWait = mean ws,
             medianWait = quantile ws (1 / 2),
             p90Wait = quantile ws (9 / 10),
             within14 = withinT ws 14,
             within28 = withinT ws 28,
             within42 = withinT ws 42,
             nSeen = length ws\<rparr>\<rparr>)"

definition simulate_w ::
  "'a params_scheme \<Rightarrow> 'w world_scheme \<Rightarrow> ((error + result) \<times> 'w world_scheme) option" where
  "simulate_w P w =
     (let (r, w1) = mulberry32_w (seed P) w
      in case new_Array_fill0 (days P + rebookDelay P + 2) of
           Inl err \<Rightarrow> Some (Inl err, w1)
         | Inr fa \<Rightarrow>
             (case day_loop_w P 0
                     (\<lparr>rand_ref = r, futureAdds_v = fa, queue_v = [], queueSizes_v = [],
                       waits_v = [], totalSlots_v = 0, usedSlots_v = 0\<rparr>, w1) of
                None \<Rightarrow> None
              | Some (e, w2) \<Rightarrow> Some (Inr (finalize_w e), w2)))"

text \<open>The state of the functional model as an environment and a world: the cell \<open>r\<close> of
  \<open>w\<close> holds the source's variable.\<close>

definition env_of :: "nat \<Rightarrow> sim_state \<Rightarrow> env" where
  "env_of r st =
     \<lparr>rand_ref = r, futureAdds_v = futureAdds st, queue_v = queue st,
      queueSizes_v = queueSizes st, waits_v = waits st, totalSlots_v = totalSlots st,
      usedSlots_v = usedSlots st\<rparr>"

definition put_cell :: "nat \<Rightarrow> 'w world_scheme \<Rightarrow> int \<Rightarrow> 'w world_scheme" where
  "put_cell r w a0 = w\<lparr>cells := (cells w)[r := a0]\<rparr>"

definition conc :: "nat \<Rightarrow> 'w world_scheme \<Rightarrow> sim_state \<Rightarrow> env \<times> 'w world_scheme" where
  "conc r w st = (env_of r st, put_cell r w (rng_a st))"

subsection \<open>Parameter records used as instances\<close>

text \<open>The smoke-test scenario of the specification.\<close>

definition scenario1 :: params where
  "scenario1 = \<lparr>arrivalRate = 18, capacityPerDay = 16, dnaRate = 12, rebookRate = 70,
     rebookDelay = 7, days = 180, warmup = 14, seed = 42\<rparr>"

text \<open>The same scenario with a delay of half a day, and with no capacity.\<close>

definition fractional_delay :: params where
  "fractional_delay = scenario1\<lparr>rebookDelay := 1 / 2\<rparr>"

definition zero_capacity :: params where
  "zero_capacity = scenario1\<lparr>capacityPerDay := 0\<rparr>"

text \<open>One day, a negative delay, no capacity, a high arrival rate.\<close>

definition negative_delay :: params where
  "negative_delay = \<lparr>arrivalRate = 100, capacityPerDay = 0, dnaRate = 0, rebookRate = 0,
     rebookDelay = - 3, days = 1, warmup = 0, seed = 0\<rparr>"

text \<open>Three days without demand, and what \<open>simulate\<close> returns for them.\<close>

definition zero_demand :: params where
  "zero_demand = \<lparr>arrivalRate = 0, capacityPerDay = 10, dnaRate = 12, rebookRate = 70,
     rebookDelay = 7, days = 3, warmup = 0, seed = 42\<rparr>"

definition zero_demand_result :: result where
  "zero_demand_result =
     \<lparr>out_queueSizes = [0, 0, 0], out_waits = [],
      out_metrics = \<lparr>utilisation = 0, meanWait = Null, medianWait = Null,
        p90Wait = Null, within14 = Null, within28 = Null, within42 = Null, nSeen = 0\<rparr>\<rparr>"

text \<open>Two days with one slot a day, and what \<open>simulate\<close> returns for them: two persons
  arrive on day 0, one is seen that day and one the next.\<close>

definition two_days :: params where
  "two_days = \<lparr>arrivalRate = 1, capacityPerDay = 1, dnaRate = 12, rebookRate = 70,
     rebookDelay = 7, days = 2, warmup = 0, seed = 5\<rparr>"

definition two_days_result :: result where
  "two_days_result =
     \<lparr>out_queueSizes = [1, 0], out_waits = [0, 1],
      out_metrics = \<lparr>utilisation = 1, meanWait = Num (1 / 2), medianWait = Num 0,
        p90Wait = Num 0, within14 = Num 1, within28 = Num 1, within42 = Num 1, nSeen = 2\<rparr>\<rparr>"

text \<open>Three days with one slot a day and one day of warm-up, what \<open>simulate\<close> returns
  for them, and the states at the start of each day and after the last: two persons arrive
  on day 0 and one is seen that day, within the warm-up; the other is seen on day 1; one
  person arrives and is seen on day 2.\<close>

definition three_days :: params where
  "three_days = \<lparr>arrivalRate = 1, capacityPerDay = 1, dnaRate = 12, rebookRate = 70,
     rebookDelay = 7, days = 3, warmup = 1, seed = 5\<rparr>"

definition three_days_result :: result where
  "three_days_result =
     \<lparr>out_queueSizes = [1, 0, 0], out_waits = [0, 1],
      out_metrics = \<lparr>utilisation = 1, meanWait = Num (1 / 2), medianWait = Num 0,
        p90Wait = Num 0, within14 = Num 1, within28 = Num 1, within42 = Num 1, nSeen = 2\<rparr>\<rparr>"

definition three_days_state :: "nat \<Rightarrow> sim_state" where
  "three_days_state d =
     (if d = 0 then \<lparr>rng_a = 5, futureAdds = replicate 12 0, queue = [], queueSizes = [],
        waits = [], totalSlots = 0, usedSlots = 0\<rparr>
      else if d = 1 then \<lparr>rng_a = 7326263257, futureAdds = replicate 12 0, queue = [0],
        queueSizes = [1], waits = [], totalSlots = 1, usedSlots = 1\<rparr>
      else if d = 2 then \<lparr>rng_a = 10989394883, futureAdds = replicate 12 0, queue = [],
        queueSizes = [1, 0], waits = [1], totalSlots = 2, usedSlots = 2\<rparr>
      else \<lparr>rng_a = 16484092322, futureAdds = replicate 12 0, queue = [],
        queueSizes = [1, 0, 0], waits = [1, 0], totalSlots = 3, usedSlots = 3\<rparr>)"

text \<open>A state of the smoke-test scenario in which the next service is a non-attendance
  that is rebooked.\<close>

definition rebooking_state :: sim_state where
  "rebooking_state = \<lparr>rng_a = 7326263257, futureAdds = replicate 189 0, queue = [],
     queueSizes = [], waits = [], totalSlots = 0, usedSlots = 0\<rparr>"

section \<open>The Poisson sampler\<close>

lemma poisson_loop_stops:
  "p * acc rand (Suc n) s \<le> L \<Longrightarrow> (\<forall>j<n. L < p * acc rand (Suc j) s) \<Longrightarrow>
   poisson_loop rand L k p s = Some (k + n, source_iter rand (Suc n) s)"
proof (induction n arbitrary: k p s)
  case 0
  then show ?case
    by (subst poisson_loop.simps) (simp add: Let_def)
next
  case (Suc n)
  let ?p = "p * fst (rand s)" and ?s = "snd (rand s)"
  from Suc.prems(2) have first: "L < ?p"
    by (auto dest: spec [of _ 0])
  have a: "?p * acc rand (Suc n) ?s \<le> L"
    using Suc.prems(1) by (simp add: mult.assoc)
  have b: "\<forall>j<n. L < ?p * acc rand (Suc j) ?s"
  proof (intro allI impI)
    fix j assume "j < n"
    then have "L < p * acc rand (Suc (Suc j)) s"
      using Suc.prems(2) by auto
    then show "L < ?p * acc rand (Suc j) ?s"
      by (simp add: mult.assoc)
  qed
  have "poisson_loop rand L (Suc k) ?p ?s = Some (Suc k + n, source_iter rand (Suc n) ?s)"
    by (rule Suc.IH [OF a b])
  with first show ?case
    by (subst poisson_loop.simps) (simp add: Let_def)
qed

lemma acc_bounds:
  "bounded_source rand c \<Longrightarrow> 0 \<le> acc rand n s \<and> acc rand n s \<le> c ^ n"
proof (induction n arbitrary: s)
  case 0
  then show ?case by simp
next
  case (Suc n)
  have r: "0 \<le> fst (rand s)" "fst (rand s) \<le> c"
    using Suc.prems by (auto simp: bounded_source_def)
  have ih: "0 \<le> acc rand n (snd (rand s))" "acc rand n (snd (rand s)) \<le> c ^ n"
    using Suc.IH [OF Suc.prems] by auto
  have "fst (rand s) * acc rand n (snd (rand s)) \<le> c * c ^ n"
    using r ih by (intro mult_mono) auto
  then show ?case
    using r ih by simp
qed

lemma acc_eventually_small:
  assumes "bounded_source rand c" and "0 < L"
  shows "\<exists>n. acc rand (Suc n) s \<le> L"
proof -
  have c: "0 \<le> c" "c < 1"
    using assms(1) by (auto simp: bounded_source_def intro: order_trans)
  then obtain n where "c ^ n < L"
    using real_arch_pow_inv [OF assms(2), of c] by auto
  moreover have "c * c ^ n \<le> 1 * c ^ n"
    using c by (intro mult_right_mono) simp_all
  ultimately have "c ^ Suc n < L"
    by simp
  then have "acc rand (Suc n) s \<le> L"
    using acc_bounds [OF assms(1), of "Suc n" s] by linarith
  then show ?thesis ..
qed

lemma poisson_loop_returns:
  assumes "bounded_source rand c" and "0 < L"
  shows "\<exists>k. poisson_loop rand L 0 1 s = Some (k, source_iter rand (Suc k) s)
            \<and> acc rand (Suc k) s \<le> L \<and> (\<forall>j<k. L < acc rand (Suc j) s)"
proof -
  define k where "k = (LEAST n. acc rand (Suc n) s \<le> L)"
  have stop: "acc rand (Suc k) s \<le> L"
    unfolding k_def using acc_eventually_small [OF assms] by (rule LeastI_ex)
  have before: "\<forall>j<k. L < acc rand (Suc j) s"
  proof (intro allI impI)
    fix j assume "j < k"
    then have "\<not> acc rand (Suc j) s \<le> L"
      unfolding k_def by (rule not_less_Least)
    then show "L < acc rand (Suc j) s"
      by (simp only: not_le)
  qed
  have "poisson_loop rand L 0 1 s = Some (0 + k, source_iter rand (Suc k) s)"
    by (rule poisson_loop_stops) (use stop before in simp_all)
  with stop before show ?thesis by auto
qed

lemma mulberry32_next_range:
  "0 \<le> fst (mulberry32_next a) \<and> fst (mulberry32_next a) \<le> 4294967295 / 4294967296"
proof -
  have "\<exists>w :: 32 word. fst (mulberry32_next a) = real (unat w) / 4294967296"
    unfolding mulberry32_next_def Let_def fst_conv by blast
  then obtain w :: "32 word" where w: "fst (mulberry32_next a) = real (unat w) / 4294967296"
    by blast
  have "unat w < 2 ^ 32"
    using unsigned_less [of w, where 'a = nat] by simp
  then have "unat w \<le> 4294967295"
    by simp
  then have "real (unat w) \<le> real 4294967295"
    by (simp only: of_nat_le_iff)
  then have le: "real (unat w) \<le> 4294967295"
    by (simp only: of_nat_numeral)
  have ge: "0 \<le> real (unat w)"
    by (rule of_nat_0_le_iff)
  have "0 \<le> real (unat w) / 4294967296"
    using ge by (rule divide_nonneg_pos) simp
  moreover have "real (unat w) / 4294967296 \<le> 4294967295 / 4294967296"
    using le by (rule divide_right_mono) simp
  ultimately show ?thesis
    unfolding w by (rule conjI)
qed

lemma mulberry32_bounded: "bounded_source mulberry32_next (4294967295 / 4294967296)"
  using mulberry32_next_range by (simp add: bounded_source_def)

section \<open>The simulation\<close>

subsection \<open>The day loop returns\<close>

lemma poisson_mulberry32_returns:
  "\<exists>k a1. poisson lam mulberry32_next a0 = Some (k, a1)"
proof (cases "lam \<le> 0")
  case True
  then show ?thesis by (simp add: poisson_def)
next
  case False
  then show ?thesis
    using poisson_loop_returns [OF mulberry32_bounded, of "exp (- lam)" a0]
    by (auto simp: poisson_def)
qed

lemma day_body_returns: "\<exists>st'. day_body P d st = Some st'"
proof -
  obtain k a1 where "poisson (arrivalRate P) mulberry32_next (rng_a st) = Some (k, a1)"
    using poisson_mulberry32_returns by blast
  then show ?thesis
    by (simp add: day_body_def Let_def)
qed

lemma run_days_returns: "\<exists>st'. run_days P n st = Some st'"
proof (induction n)
  case 0
  then show ?case by simp
next
  case (Suc n)
  then obtain st1 where "run_days P n st = Some st1" by blast
  then show ?case
    using day_body_returns [of P n st1] by simp
qed

lemma day_lt_iff: "real d < days P \<longleftrightarrow> d < ndays P"
proof -
  have "real d < days P \<longleftrightarrow> int d < \<lceil>days P\<rceil>"
    by (simp add: less_ceiling_iff)
  also have "\<dots> \<longleftrightarrow> d < nat \<lceil>days P\<rceil>"
    by auto
  finally show ?thesis
    by (simp add: ndays_def)
qed

lemma day_loop_run_days:
  "d \<le> ndays P \<Longrightarrow> run_days P d st0 = Some st \<Longrightarrow>
   day_loop P d st = run_days P (ndays P) st0"
proof (induction "ndays P - d" arbitrary: d st)
  case 0
  then have "d = ndays P" by simp
  then have "\<not> real d < days P"
    by (simp add: day_lt_iff)
  then show ?case
    using 0 \<open>d = ndays P\<close> by (subst day_loop.simps) simp
next
  case (Suc m)
  then have lt: "d < ndays P" by simp
  then have cond: "real d < days P"
    by (simp add: day_lt_iff)
  obtain st' where st': "day_body P d st = Some st'"
    using day_body_returns by blast
  have "run_days P (Suc d) st0 = Some st'"
    using Suc.prems(2) st' by simp
  moreover have "m = ndays P - Suc d" "Suc d \<le> ndays P"
    using Suc.hyps(2) lt by simp_all
  ultimately have "day_loop P (Suc d) st' = run_days P (ndays P) st0"
    using Suc.hyps(1) by blast
  then show ?case
    using cond st' by (subst day_loop.simps) simp
qed

lemma day_loop_eq: "day_loop P 0 st = run_days P (ndays P) st"
  by (rule day_loop_run_days) simp_all

lemma simulate_eq:
  "simulate P =
     (case new_Array_fill0 (days P + rebookDelay P + 2) of
        Inl e \<Rightarrow> Some (Inl e)
      | Inr fa \<Rightarrow> map_option (\<lambda>st. Inr (finalize st)) (sim_run P (ndays P)))"
  by (simp add: simulate_def sim_run_def day_loop_eq split: sum.splits option.splits)

lemma simulate_InrD:
  assumes "simulate P = Some (Inr r)"
  obtains st where "sim_run P (ndays P) = Some st" and "r = finalize st"
  using assms by (auto simp: simulate_eq split: sum.splits)

lemma sim_run_returns:
  "new_Array_fill0 (days P + rebookDelay P + 2) = Inr fa \<Longrightarrow> \<exists>st. sim_run P n = Some st"
  using run_days_returns [of P n "init_state P fa"] by (simp add: sim_run_def)

lemma simulate_returns:
  assumes "new_Array_fill0 (days P + rebookDelay P + 2) = Inr fa"
  shows "\<exists>r. simulate P = Some (Inr r)"
proof -
  obtain st where "sim_run P (ndays P) = Some st"
    using sim_run_returns [OF assms] by blast
  then show ?thesis
    using assms by (simp add: simulate_eq)
qed

text \<open>\<open>simulate\<close> always returns or throws: the loops end.\<close>

lemma simulate_total: "simulate P \<noteq> None"
  using simulate_returns [of P] by (cases "new_Array_fill0 (days P + rebookDelay P + 2)")
    (auto simp: simulate_def)

lemma sim_run_0:
  "new_Array_fill0 (days P + rebookDelay P + 2) = Inr fa \<Longrightarrow> sim_run P 0 = Some (init_state P fa)"
  by (simp add: sim_run_def)

lemma sim_run_Suc:
  "sim_run P (Suc n) = (case sim_run P n of None \<Rightarrow> None | Some st \<Rightarrow> day_body P n st)"
  by (simp add: sim_run_def split: sum.splits)

lemma sim_run_SucD:
  assumes "sim_run P (Suc n) = Some st'"
  obtains st where "sim_run P n = Some st" and "day_body P n st = Some st'"
  using assms by (auto simp: sim_run_Suc split: option.splits)

subsection \<open>One service\<close>

lemma service_step_fields [simp]:
  "queue (service_step P d e st) = queue st"
  "queueSizes (service_step P d e st) = queueSizes st"
  "totalSlots (service_step P d e st) = totalSlots st"
  "usedSlots (service_step P d e st) = usedSlots st"
  "length (futureAdds (service_step P d e st)) = length (futureAdds st)"
  by (simp_all add: service_step_def Let_def case_prod_beta)

text \<open>A wait is recorded exactly when the person attends and the service day is not
  before the warm-up.\<close>

lemma service_step_waits:
  "waits (service_step P d e st) =
     (if \<not> fst (mulberry32_next (rng_a st)) < dnaRate P / 100 \<and> warmup P \<le> real d
      then waits st @ [int d - int e] else waits st)"
  by (simp add: service_step_def Let_def case_prod_beta)

subsection \<open>The service loop\<close>

lemma service_loop_fields [simp]:
  "queueSizes (service_loop P d n st) = queueSizes st"
  "totalSlots (service_loop P d n st) = totalSlots st"
  "length (futureAdds (service_loop P d n st)) = length (futureAdds st)"
  by (induction n arbitrary: st; simp split: list.splits)+

text \<open>The loop serves \<open>min n (length (queue st))\<close> persons, from the front.\<close>

lemma service_loop_queue:
  "queue (service_loop P d n st) = drop n (queue st)"
proof (induction n arbitrary: st)
  case 0
  then show ?case by simp
next
  case (Suc n)
  then show ?case by (cases "queue st") simp_all
qed

lemma service_loop_usedSlots:
  "usedSlots (service_loop P d n st) = usedSlots st + min n (length (queue st))"
proof (induction n arbitrary: st)
  case 0
  then show ?case by simp
next
  case (Suc n)
  then show ?case by (cases "queue st") simp_all
qed

lemma service_loop_waits:
  "\<exists>ws. waits (service_loop P d n st) = waits st @ ws
      \<and> (\<forall>w\<in>set ws. warmup P \<le> real d \<and> (\<exists>e\<in>set (queue st). w = int d - int e))"
proof (induction n arbitrary: st)
  case 0
  then show ?case by simp
next
  case (Suc n)
  show ?case
  proof (cases "queue st")
    case Nil
    then show ?thesis by simp
  next
    case (Cons e rest)
    define st1 where "st1 = service_step P d e (st\<lparr>usedSlots := usedSlots st + 1, queue := rest\<rparr>)"
    obtain ws where ws: "waits (service_loop P d n st1) = waits st1 @ ws"
        "\<forall>w\<in>set ws. warmup P \<le> real d \<and> (\<exists>e\<in>set (queue st1). w = int d - int e)"
      using Suc.IH [of st1] by blast
    have q1: "queue st1 = rest"
      by (simp add: st1_def)
    obtain w1 where w1: "waits st1 = waits st @ w1"
        "\<forall>w\<in>set w1. warmup P \<le> real d \<and> w = int d - int e"
      by (cases "\<not> fst (mulberry32_next (rng_a st)) < dnaRate P / 100 \<and> warmup P \<le> real d")
         (auto simp: st1_def service_step_waits)
    have "waits (service_loop P d (Suc n) st) = waits st @ (w1 @ ws)"
      using Cons ws(1) w1(1) by (simp add: st1_def)
    moreover have "\<forall>w\<in>set (w1 @ ws). warmup P \<le> real d \<and> (\<exists>e\<in>set (queue st). w = int d - int e)"
      using ws(2) w1(2) q1 Cons by auto
    ultimately show ?thesis by blast
  qed
qed

subsection \<open>One day\<close>

lemma day_bodyD:
  assumes "day_body P d st = Some st'"
  obtains k a1 where
    "poisson (arrivalRate P) mulberry32_next (rng_a st) = Some (k, a1)"
    "st' = (let st2 = service_loop P d (cap P)
                       (st\<lparr>rng_a := a1,
                           queue := push_arrivals (arrivals k (futureAdds st) d) d (queue st),
                           totalSlots := totalSlots st + cap P\<rparr>)
            in st2\<lparr>queueSizes := queueSizes st2 @ [length (queue st2)]\<rparr>)"
  using assms by (auto simp: day_body_def Let_def split: option.splits)

lemma day_body_totalSlots:
  "day_body P d st = Some st' \<Longrightarrow> totalSlots st' = totalSlots st + cap P"
  by (erule day_bodyD) (simp add: Let_def)

lemma day_body_futureAdds:
  "day_body P d st = Some st' \<Longrightarrow> length (futureAdds st') = length (futureAdds st)"
  by (erule day_bodyD) (simp add: Let_def)

lemma day_body_queueSizes:
  "day_body P d st = Some st' \<Longrightarrow> queueSizes st' = queueSizes st @ [length (queue st')]"
  by (erule day_bodyD) (simp add: Let_def)

text \<open>Conservation on one day: \<open>n\<close> entries tagged \<open>d\<close> are appended, then
  \<open>min cap (length before service)\<close> persons leave from the front.\<close>

lemma day_body_queue:
  assumes "day_body P d st = Some st'"
    and "poisson (arrivalRate P) mulberry32_next (rng_a st) = Some (k, a1)"
  shows "queue st' = drop (cap P) (push_arrivals (arrivals k (futureAdds st) d) d (queue st))"
    and "usedSlots st' = usedSlots st
           + min (cap P) (length (push_arrivals (arrivals k (futureAdds st) d) d (queue st)))"
  using assms
  by (auto elim!: day_bodyD simp: Let_def service_loop_queue service_loop_usedSlots)

lemma day_body_waits:
  assumes "day_body P d st = Some st'"
  shows "\<exists>ws. waits st' = waits st @ ws
      \<and> (\<forall>w\<in>set ws. warmup P \<le> real d \<and> (\<exists>e\<in>set (queue st) \<union> {d}. w = int d - int e))"
proof -
  obtain k a1 where st': "st' = (let st2 = service_loop P d (cap P)
                       (st\<lparr>rng_a := a1,
                           queue := push_arrivals (arrivals k (futureAdds st) d) d (queue st),
                           totalSlots := totalSlots st + cap P\<rparr>)
            in st2\<lparr>queueSizes := queueSizes st2 @ [length (queue st2)]\<rparr>)"
    using assms by (rule day_bodyD)
  define st1 where "st1 = st\<lparr>rng_a := a1,
                           queue := push_arrivals (arrivals k (futureAdds st) d) d (queue st),
                           totalSlots := totalSlots st + cap P\<rparr>"
  obtain ws where ws: "waits (service_loop P d (cap P) st1) = waits st1 @ ws"
      "\<forall>w\<in>set ws. warmup P \<le> real d \<and> (\<exists>e\<in>set (queue st1). w = int d - int e)"
    using service_loop_waits [of P d "cap P" st1] by blast
  have "set (queue st1) \<subseteq> set (queue st) \<union> {d}"
    by (auto simp: st1_def push_arrivals_def)
  with ws(2) have "\<forall>w\<in>set ws. warmup P \<le> real d \<and> (\<exists>e\<in>set (queue st) \<union> {d}. w = int d - int e)"
    by blast
  moreover have "waits st' = waits st @ ws"
    using ws(1) by (simp add: st' st1_def Let_def)
  ultimately show ?thesis by blast
qed

lemma day_body_queue_set:
  "day_body P d st = Some st' \<Longrightarrow> set (queue st') \<subseteq> set (queue st) \<union> {d}"
  by (erule day_bodyD) (auto simp: Let_def service_loop_queue push_arrivals_def dest: in_set_dropD)

subsection \<open>Invariants of the day loop\<close>

lemma sim_run_futureAdds:
  "sim_run P n = Some st \<Longrightarrow> new_Array_fill0 (days P + rebookDelay P + 2) = Inr fa \<Longrightarrow>
   length (futureAdds st) = length fa"
proof (induction n arbitrary: st)
  case 0
  then show ?case by (auto simp: sim_run_def init_state_def)
next
  case (Suc n)
  from Suc.prems(1) obtain st0 where "sim_run P n = Some st0" "day_body P n st0 = Some st"
    by (rule sim_run_SucD)
  then show ?case
    using Suc.IH [OF _ Suc.prems(2)] by (simp add: day_body_futureAdds)
qed

lemma sim_run_totalSlots: "sim_run P n = Some st \<Longrightarrow> totalSlots st = n * cap P"
proof (induction n arbitrary: st)
  case 0
  then show ?case by (auto simp: sim_run_def init_state_def split: sum.splits)
next
  case (Suc n)
  from Suc.prems obtain st0 where "sim_run P n = Some st0" "day_body P n st0 = Some st"
    by (rule sim_run_SucD)
  then show ?case
    using Suc.IH by (simp add: day_body_totalSlots)
qed

lemma day_body_usedSlots_le:
  assumes "day_body P d st = Some st'"
  shows "usedSlots st \<le> usedSlots st'" and "usedSlots st' \<le> usedSlots st + cap P"
proof -
  obtain k a1 where "poisson (arrivalRate P) mulberry32_next (rng_a st) = Some (k, a1)"
    using assms by (rule day_bodyD)
  from day_body_queue(2) [OF assms this]
  show "usedSlots st \<le> usedSlots st'" and "usedSlots st' \<le> usedSlots st + cap P"
    by simp_all
qed

lemma sim_run_usedSlots_le: "sim_run P n = Some st \<Longrightarrow> usedSlots st \<le> totalSlots st"
proof (induction n arbitrary: st)
  case 0
  then show ?case by (auto simp: sim_run_def init_state_def split: sum.splits)
next
  case (Suc n)
  from Suc.prems obtain st0 where st0: "sim_run P n = Some st0" "day_body P n st0 = Some st"
    by (rule sim_run_SucD)
  have "usedSlots st \<le> usedSlots st0 + cap P"
    using st0(2) by (rule day_body_usedSlots_le)
  also have "\<dots> \<le> totalSlots st0 + cap P"
    using Suc.IH [OF st0(1)] by simp
  also have "\<dots> = totalSlots st"
    using st0(2) by (simp add: day_body_totalSlots)
  finally show ?case .
qed

lemma served_eq:
  "sim_run P d = Some st \<Longrightarrow> sim_run P (Suc d) = Some st' \<Longrightarrow>
   usedSlots st' = usedSlots st + served P d"
  using day_body_usedSlots_le(1) [of P d st st']
  by (auto simp: served_def sim_run_Suc)

lemma sim_run_usedSlots_sum: "sim_run P n = Some st \<Longrightarrow> usedSlots st = (\<Sum>d<n. served P d)"
proof (induction n arbitrary: st)
  case 0
  then show ?case by (auto simp: sim_run_def init_state_def split: sum.splits)
next
  case (Suc n)
  from Suc.prems obtain st0 where st0: "sim_run P n = Some st0" "day_body P n st0 = Some st"
    by (rule sim_run_SucD)
  show ?case
    using served_eq [OF st0(1) Suc.prems] Suc.IH [OF st0(1)] by simp
qed

text \<open>The trajectory: \<open>queueSizes\<close> has one entry per finished day, the queue length at
  the end of that day.\<close>

lemma sim_run_queueSizes_length: "sim_run P n = Some st \<Longrightarrow> length (queueSizes st) = n"
proof (induction n arbitrary: st)
  case 0
  then show ?case by (auto simp: sim_run_def init_state_def split: sum.splits)
next
  case (Suc n)
  from Suc.prems obtain st0 where "sim_run P n = Some st0" "day_body P n st0 = Some st"
    by (rule sim_run_SucD)
  then show ?case
    using Suc.IH by (simp add: day_body_queueSizes)
qed

lemma sim_run_queueSizes_nth:
  "sim_run P n = Some st \<Longrightarrow> d < n \<Longrightarrow> sim_run P (Suc d) = Some st' \<Longrightarrow>
   queueSizes st ! d = length (queue st')"
proof (induction n arbitrary: st)
  case 0
  then show ?case by simp
next
  case (Suc n)
  from Suc.prems(1) obtain st0 where st0: "sim_run P n = Some st0" "day_body P n st0 = Some st"
    by (rule sim_run_SucD)
  have qs: "queueSizes st = queueSizes st0 @ [length (queue st)]"
    using st0(2) by (rule day_body_queueSizes)
  have len: "length (queueSizes st0) = n"
    using st0(1) by (rule sim_run_queueSizes_length)
  show ?case
  proof (cases "d = n")
    case True
    then show ?thesis
      using Suc.prems(1,3) qs len by (simp add: nth_append)
  next
    case False
    then have "d < n" using Suc.prems(2) by simp
    then show ?thesis
      using Suc.IH [OF st0(1) _ Suc.prems(3)] qs len by (simp add: nth_append)
  qed
qed

lemma sim_run_queue_start:
  "sim_run P d = Some st \<Longrightarrow>
   length (queue st) = (if d = 0 then 0 else queueSizes st ! (d - 1))"
proof (cases d)
  case 0
  assume "sim_run P d = Some st"
  with 0 show ?thesis by (auto simp: sim_run_def init_state_def split: sum.splits)
next
  case (Suc m)
  assume "sim_run P d = Some st"
  then show ?thesis
    using sim_run_queueSizes_nth [of P d st m st] Suc by simp
qed

lemma sim_run_queue_entries: "sim_run P n = Some st \<Longrightarrow> \<forall>e\<in>set (queue st). e < n"
proof (induction n arbitrary: st)
  case 0
  then show ?case by (auto simp: sim_run_def init_state_def split: sum.splits)
next
  case (Suc n)
  from Suc.prems obtain st0 where st0: "sim_run P n = Some st0" "day_body P n st0 = Some st"
    by (rule sim_run_SucD)
  show ?case
    using day_body_queue_set [OF st0(2)] Suc.IH [OF st0(1)] by fastforce
qed

lemma sim_run_waits:
  "sim_run P n = Some st \<Longrightarrow>
   \<forall>w\<in>set (waits st). \<exists>d e. d < n \<and> warmup P \<le> real d \<and> e \<le> d \<and> w = int d - int e"
proof (induction n arbitrary: st)
  case 0
  then show ?case by (auto simp: sim_run_def init_state_def split: sum.splits)
next
  case (Suc n)
  from Suc.prems obtain st0 where st0: "sim_run P n = Some st0" "day_body P n st0 = Some st"
    by (rule sim_run_SucD)
  obtain ws where ws: "waits st = waits st0 @ ws"
      "\<forall>w\<in>set ws. warmup P \<le> real n \<and> (\<exists>e\<in>set (queue st0) \<union> {n}. w = int n - int e)"
    using day_body_waits [OF st0(2)] by blast
  have entries: "\<forall>e\<in>set (queue st0) \<union> {n}. e \<le> n"
    using sim_run_queue_entries [OF st0(1)] by auto
  show ?case
  proof
    fix w assume "w \<in> set (waits st)"
    then consider "w \<in> set (waits st0)" | "w \<in> set ws"
      using ws(1) by auto
    then show "\<exists>d e. d < Suc n \<and> warmup P \<le> real d \<and> e \<le> d \<and> w = int d - int e"
    proof cases
      case 1
      then obtain d e where "d < n" "warmup P \<le> real d" "e \<le> d" "w = int d - int e"
        using Suc.IH [OF st0(1)] by blast
      then show ?thesis
        using less_Suc_eq by blast
    next
      case 2
      then obtain e where "warmup P \<le> real n" "e \<le> n" "w = int n - int e"
        using ws(2) entries by blast
      then show ?thesis by blast
    qed
  qed
qed

subsection \<open>The waits and the slots of each day\<close>

lemma service_step_rng:
  "rng_a (service_step P d e st) =
     (if fst (mulberry32_next (rng_a st)) < dnaRate P / 100
      then snd (mulberry32_next (snd (mulberry32_next (rng_a st))))
      else snd (mulberry32_next (rng_a st)))"
  by (simp add: service_step_def Let_def case_prod_beta)

lemma service_step_rng_frame [simp]:
  "rng_a (service_step P d e (st\<lparr>usedSlots := u, queue := q\<rparr>)) = rng_a (service_step P d e st)"
  "waits (service_step P d e (st\<lparr>usedSlots := u, queue := q\<rparr>)) = waits (service_step P d e st)"
  by (simp_all add: service_step_def Let_def case_prod_beta)

lemma service_loop_waits_exact:
  "waits (service_loop P d n st) =
     waits st @ (if warmup P \<le> real d
                 then map (\<lambda>e. int d - int e) (attended P (rng_a st) (take n (queue st)))
                 else [])"
proof (induction n arbitrary: st)
  case 0
  then show ?case by simp
next
  case (Suc n)
  show ?case
  proof (cases "queue st")
    case Nil
    then show ?thesis by simp
  next
    case (Cons e rest)
    let ?st1 = "service_step P d e (st\<lparr>usedSlots := usedSlots st + 1, queue := rest\<rparr>)"
    have "waits (service_loop P d (Suc n) st) = waits (service_loop P d n ?st1)"
      using Cons by simp
    also have "\<dots> = waits ?st1 @ (if warmup P \<le> real d
                 then map (\<lambda>e. int d - int e) (attended P (rng_a ?st1) (take n (queue ?st1)))
                 else [])"
      by (rule Suc.IH)
    finally show ?thesis
      using Cons by (simp add: service_step_waits service_step_rng)
  qed
qed

lemma day_body_waits_exact:
  assumes "sim_run P d = Some st" and "day_body P d st = Some st'"
  shows "waits st' = waits st @ recorded_waits P d"
proof -
  from assms(2) obtain k a1 where
    k: "poisson (arrivalRate P) mulberry32_next (rng_a st) = Some (k, a1)" and
    st': "st' = (let st2 = service_loop P d (cap P)
                       (st\<lparr>rng_a := a1,
                           queue := push_arrivals (arrivals k (futureAdds st) d) d (queue st),
                           totalSlots := totalSlots st + cap P\<rparr>)
            in st2\<lparr>queueSizes := queueSizes st2 @ [length (queue st2)]\<rparr>)"
    by (rule day_bodyD)
  have "day_rng P d = a1"
    and "day_queue P d = push_arrivals (arrivals k (futureAdds st) d) d (queue st)"
    by (simp_all add: day_rng_def day_queue_def assms(1) k)
  then show ?thesis
    by (simp add: st' Let_def service_loop_waits_exact recorded_waits_def day_attended_def
        day_services_def)
qed

lemma sim_run_waits_exact:
  "sim_run P n = Some st \<Longrightarrow> waits st = concat (map (recorded_waits P) [0..<n])"
proof (induction n arbitrary: st)
  case 0
  then show ?case by (auto simp: sim_run_def init_state_def split: sum.splits)
next
  case (Suc n)
  from Suc.prems obtain st0 where st0: "sim_run P n = Some st0" "day_body P n st0 = Some st"
    by (rule sim_run_SucD)
  show ?case
    using day_body_waits_exact [OF st0] Suc.IH [OF st0(1)] by simp
qed

lemma attended_subset: "set (attended P a0 es) \<subseteq> set es"
  by (induction P a0 es rule: attended.induct) auto

lemma day_queue_entries: "\<forall>e\<in>set (day_queue P d). e \<le> d"
proof (cases "sim_run P d")
  case None
  then show ?thesis by (simp add: day_queue_def)
next
  case (Some st)
  then have "\<forall>e\<in>set (queue st). e < d"
    by (rule sim_run_queue_entries)
  then have "\<forall>e\<in>set (queue st). e \<le> d"
    by (simp add: less_imp_le)
  then show ?thesis
    by (auto simp: day_queue_def Some push_arrivals_def split: option.splits)
qed

lemma day_attended_entries: "e \<in> set (day_attended P d) \<Longrightarrow> e \<in> set (day_services P d) \<and> e \<le> d"
  using attended_subset [of P "day_rng P d" "day_services P d"] day_queue_entries [of P d]
  by (auto simp: day_attended_def day_services_def dest: in_set_takeD)

lemma day_used_slots:
  assumes "sim_run P d = Some st" and "sim_run P (Suc d) = Some st'"
  shows "usedSlots st' = usedSlots st + length (day_services P d)"
proof -
  have b: "day_body P d st = Some st'"
    using assms by (simp add: sim_run_Suc)
  then obtain k a1 where k: "poisson (arrivalRate P) mulberry32_next (rng_a st) = Some (k, a1)"
    by (rule day_bodyD)
  have "day_queue P d = push_arrivals (arrivals k (futureAdds st) d) d (queue st)"
    by (simp add: day_queue_def assms(1) k)
  then show ?thesis
    using day_body_queue(2) [OF b k] by (simp add: day_services_def min.commute)
qed

lemma sim_run_usedSlots_services:
  "sim_run P n = Some st \<Longrightarrow> usedSlots st = (\<Sum>d<n. length (day_services P d))"
proof (induction n arbitrary: st)
  case 0
  then show ?case by (auto simp: sim_run_def init_state_def split: sum.splits)
next
  case (Suc n)
  from Suc.prems obtain st0 where st0: "sim_run P n = Some st0" "day_body P n st0 = Some st"
    by (rule sim_run_SucD)
  show ?case
    using day_used_slots [OF st0(1) Suc.prems] Suc.IH [OF st0(1)] by simp
qed

subsection \<open>The returned record\<close>

lemma finalize_fields [simp]:
  "out_queueSizes (finalize st) = queueSizes st"
  "out_waits (finalize st) = sort (waits st)"
  "utilisation (out_metrics (finalize st)) =
     (if totalSlots st > 0 then real (usedSlots st) / real (totalSlots st) else 0)"
  "meanWait (out_metrics (finalize st)) = mean (sort (waits st))"
  "medianWait (out_metrics (finalize st)) = quantile (sort (waits st)) (1 / 2)"
  "p90Wait (out_metrics (finalize st)) = quantile (sort (waits st)) (9 / 10)"
  "within14 (out_metrics (finalize st)) = withinT (sort (waits st)) 14"
  "within28 (out_metrics (finalize st)) = withinT (sort (waits st)) 28"
  "within42 (out_metrics (finalize st)) = withinT (sort (waits st)) 42"
  "nSeen (out_metrics (finalize st)) = length (waits st)"
  by (simp_all add: finalize_def Let_def)

text \<open>
  Claim C5. For every run that returns, the utilisation is \<open>usedSlots / totalSlots\<close> when
  \<open>totalSlots > 0\<close> and 0 otherwise, and lies in \<open>[0, 1]\<close>. Both counters are those of
  the state after the last day, accumulated over every simulated day, warm-up or not:
  \<open>totalSlots\<close> is \<open>cap\<close> times the number of days, and \<open>usedSlots\<close> is the sum over
  the days of \<open>min cap (queue length before the service loop)\<close>. The bound needs no sign
  condition on the capacity or the arrival rate.
\<close>

theorem utilisation_ratio_bounded:
  assumes "simulate P = Some (Inr r)"
  shows "\<exists>st. sim_run P (ndays P) = Some st
      \<and> utilisation (out_metrics r) =
          (if totalSlots st > 0 then real (usedSlots st) / real (totalSlots st) else 0)
      \<and> totalSlots st = ndays P * cap P
      \<and> usedSlots st = (\<Sum>d<ndays P. min (cap P) (length (day_queue P d)))
      \<and> 0 \<le> utilisation (out_metrics r) \<and> utilisation (out_metrics r) \<le> 1"
proof -
  from assms obtain st where st: "sim_run P (ndays P) = Some st" "r = finalize st"
    by (rule simulate_InrD)
  have le: "usedSlots st \<le> totalSlots st"
    using st(1) by (rule sim_run_usedSlots_le)
  have u: "utilisation (out_metrics r) =
      (if totalSlots st > 0 then real (usedSlots st) / real (totalSlots st) else 0)"
    by (simp add: st(2))
  have used: "usedSlots st = (\<Sum>d<ndays P. min (cap P) (length (day_queue P d)))"
    using sim_run_usedSlots_services [OF st(1)] by (simp add: day_services_def min.commute)
  have "0 \<le> utilisation (out_metrics r)"
    by (simp add: u)
  moreover have "utilisation (out_metrics r) \<le> 1"
    using le by (simp add: u)
  ultimately show ?thesis
    using st(1) u sim_run_totalSlots [OF st(1)] used by blast
qed

text \<open>
  Claim C6. The returned \<open>waits\<close> is, sorted, the list of the waits of the attended
  services of the days \<open>d \<ge> warmup\<close>: each day contributes \<open>d - e\<close> for every person,
  entered on day \<open>e\<close>, who is served that day and attends, and nothing when
  \<open>d < warmup\<close>, whatever the entry days. So every element is \<open>d - e\<close> for a service day
  \<open>d \<ge> warmup\<close> and the entry day \<open>e \<le> d\<close> of a person who attended on day \<open>d\<close>,
  and \<open>nSeen\<close> is the number of elements.
\<close>

theorem waits_after_warmup:
  assumes "simulate P = Some (Inr r)"
  shows "out_waits r = sort (concat (map (recorded_waits P) [0..<ndays P]))
      \<and> (\<forall>w\<in>set (out_waits r).
            \<exists>d e. d < ndays P \<and> warmup P \<le> real d \<and> e \<in> set (day_attended P d)
              \<and> e \<in> set (day_services P d) \<and> e \<le> d \<and> w = int d - int e)
      \<and> nSeen (out_metrics r) = length (out_waits r)"
proof -
  from assms obtain st where st: "sim_run P (ndays P) = Some st" "r = finalize st"
    by (rule simulate_InrD)
  have w: "waits st = concat (map (recorded_waits P) [0..<ndays P])"
    using st(1) by (rule sim_run_waits_exact)
  have "\<exists>d e. d < ndays P \<and> warmup P \<le> real d \<and> e \<in> set (day_attended P d)
              \<and> e \<in> set (day_services P d) \<and> e \<le> d \<and> x = int d - int e"
    if "x \<in> set (out_waits r)" for x
  proof -
    from that have "x \<in> set (concat (map (recorded_waits P) [0..<ndays P]))"
      by (simp add: st(2) w)
    then obtain d where d: "d < ndays P" "x \<in> set (recorded_waits P d)"
      by auto
    then have "warmup P \<le> real d" and "\<exists>e\<in>set (day_attended P d). x = int d - int e"
      by (auto simp: recorded_waits_def split: if_splits)
    then show ?thesis
      using d(1) day_attended_entries by blast
  qed
  then show ?thesis
    by (simp add: st(2) w)
qed

subsection \<open>No capacity\<close>

lemma zero_cap_invariant:
  assumes "cap P = 0"
  shows "sim_run P n = Some st \<Longrightarrow>
    sorted (queueSizes st) \<and> (\<forall>x\<in>set (queueSizes st). x \<le> length (queue st)) \<and> waits st = []"
proof (induction n arbitrary: st)
  case 0
  then show ?case by (auto simp: sim_run_def init_state_def split: sum.splits)
next
  case (Suc n)
  from Suc.prems obtain st0 where st0: "sim_run P n = Some st0" "day_body P n st0 = Some st"
    by (rule sim_run_SucD)
  from st0(2) obtain k a1 where
    st: "st = (let st2 = service_loop P n (cap P)
                       (st0\<lparr>rng_a := a1,
                           queue := push_arrivals (arrivals k (futureAdds st0) n) n (queue st0),
                           totalSlots := totalSlots st0 + cap P\<rparr>)
            in st2\<lparr>queueSizes := queueSizes st2 @ [length (queue st2)]\<rparr>)"
    by (rule day_bodyD)
  have q: "queue st = queue st0 @ replicate (case arrivals k (futureAdds st0) n of None \<Rightarrow> 0 | Some m \<Rightarrow> m) n"
    and qs: "queueSizes st = queueSizes st0 @ [length (queue st)]"
    and w: "waits st = waits st0"
    by (simp_all add: st assms push_arrivals_def)
  have ih: "sorted (queueSizes st0)" "\<forall>x\<in>set (queueSizes st0). x \<le> length (queue st0)"
      "waits st0 = []"
    using Suc.IH [OF st0(1)] by auto
  have grow: "length (queue st0) \<le> length (queue st)"
    by (simp add: q)
  have "sorted (queueSizes st)"
    using ih(1,2) grow by (auto simp: qs sorted_append)
  moreover have "\<forall>x\<in>set (queueSizes st). x \<le> length (queue st)"
    using ih(2) grow by (auto simp: qs)
  ultimately show ?case
    using ih(3) w by simp
qed

text \<open>
  Claim C8. With \<open>capacityPerDay = 0\<close> and a positive arrival rate, the returned
  \<open>queueSizes\<close> is non-decreasing and \<open>waits\<close> is empty.
\<close>

theorem zero_capacity_queue_grows:
  assumes "simulate P = Some (Inr r)" and "capacityPerDay P = 0" and "0 < arrivalRate P"
  shows "sorted (out_queueSizes r) \<and> out_waits r = []"
proof -
  from assms(1) obtain st where st: "sim_run P (ndays P) = Some st" "r = finalize st"
    by (rule simulate_InrD)
  have "cap P = 0"
    using assms(2) by (simp add: cap_def)
  then show ?thesis
    using zero_cap_invariant [OF _ st(1)] by (simp add: st(2))
qed

subsection \<open>Rebooking\<close>

lemma new_Array_fill0_length: "new_Array_fill0 x = Inr fa \<Longrightarrow> length fa = nat \<lfloor>x\<rfloor>"
  by (auto simp: new_Array_fill0_def split: if_splits)

text \<open>
  Claim C10. When \<open>rebookDelay\<close> is a non-negative integer \<open>k\<close> and \<open>days\<close> an integer
  \<open>n \<ge> 1\<close>, then on every day \<open>d < n\<close> of the run \<open>futureAdds\<close> has length
  \<open>n + k + 2\<close>, in the state at the start of the day and after every service of the day;
  \<open>returnDay = d + k\<close> is below that length, so the guard passes, and a service that
  rebooks increments \<open>futureAdds[returnDay]\<close>: no rebooking is dropped.
\<close>

theorem rebooking_never_dropped:
  assumes "rebookDelay P = real k" and "days P = real n" and "1 \<le> n"
    and "sim_run P d = Some st" and "d < n"
  shows "length (futureAdds st) = n + k + 2
     \<and> (\<forall>st1 e. length (futureAdds st1) = length (futureAdds st) \<longrightarrow>
          (let returnDay = d + nat (max 0 \<lfloor>rebookDelay P\<rfloor>);
               u1 = fst (mulberry32_next (rng_a st1));
               u2 = fst (mulberry32_next (snd (mulberry32_next (rng_a st1))))
           in returnDay = d + k \<and> returnDay < length (futureAdds st1)
              \<and> length (futureAdds (service_step P d e st1)) = length (futureAdds st)
              \<and> (u1 < dnaRate P / 100 \<and> u2 < rebookRate P / 100 \<longrightarrow>
                   futureAdds (service_step P d e st1) =
                     (futureAdds st1)[returnDay := futureAdds st1 ! returnDay + 1])))"
proof -
  have sum: "days P + rebookDelay P + 2 = real (n + k + 2)"
    using assms(1,2) by simp
  obtain fa where fa: "new_Array_fill0 (days P + rebookDelay P + 2) = Inr fa"
    using assms(4) by (auto simp: sim_run_def split: sum.splits)
  then have "length fa = nat \<lfloor>real (n + k + 2)\<rfloor>"
    unfolding sum by (rule new_Array_fill0_length)
  then have len: "length (futureAdds st) = n + k + 2"
    using sim_run_futureAdds [OF assms(4) fa] by (simp only: floor_of_nat nat_int)
  have rd: "nat (max 0 \<lfloor>rebookDelay P\<rfloor>) = k"
    by (simp add: assms(1))
  have "d + k < n + k + 2"
    using assms(5) by simp
  then show ?thesis
    using len rd by (auto simp: Let_def service_step_def case_prod_beta)
qed

subsection \<open>Dependence on the parameters\<close>

lemma service_step_cong:
  assumes "dnaRate P = dnaRate Q" "rebookRate P = rebookRate Q" "rebookDelay P = rebookDelay Q"
    "warmup P = warmup Q"
  shows "service_step P d e st = service_step Q d e st"
  unfolding service_step_def assms by (rule refl)

lemma service_loop_cong:
  assumes "dnaRate P = dnaRate Q" "rebookRate P = rebookRate Q" "rebookDelay P = rebookDelay Q"
    "warmup P = warmup Q"
  shows "service_loop P d n st = service_loop Q d n st"
proof (induction n arbitrary: st)
  case 0
  show ?case by simp
next
  case (Suc n)
  show ?case
    by (cases "queue st") (simp_all add: service_step_cong [OF assms] Suc.IH)
qed

lemma day_body_cong:
  assumes "arrivalRate P = arrivalRate Q" "capacityPerDay P = capacityPerDay Q"
    "dnaRate P = dnaRate Q" "rebookRate P = rebookRate Q" "rebookDelay P = rebookDelay Q"
    "warmup P = warmup Q"
  shows "day_body P d st = day_body Q d st"
  unfolding day_body_def cap_def assms(1,2) service_loop_cong [OF assms(3-6)] by (rule refl)

lemma run_days_cong:
  assumes "arrivalRate P = arrivalRate Q" "capacityPerDay P = capacityPerDay Q"
    "dnaRate P = dnaRate Q" "rebookRate P = rebookRate Q" "rebookDelay P = rebookDelay Q"
    "warmup P = warmup Q"
  shows "run_days P n st = run_days Q n st"
proof (induction n)
  case 0
  show ?case by simp
next
  case (Suc n)
  show ?case
    unfolding run_days.simps Suc.IH day_body_cong [OF assms] by (rule refl)
qed

text \<open>\<open>simulate\<close> reads its argument through the eight fields only.\<close>

lemma simulate_eight_fields:
  fixes P :: "'a params_scheme" and Q :: "'b params_scheme"
  assumes "arrivalRate P = arrivalRate Q" "capacityPerDay P = capacityPerDay Q"
    "dnaRate P = dnaRate Q" "rebookRate P = rebookRate Q" "rebookDelay P = rebookDelay Q"
    "days P = days Q" "warmup P = warmup Q" "seed P = seed Q"
  shows "simulate P = simulate Q"
proof -
  have n: "ndays P = ndays Q"
    by (simp add: ndays_def assms(6))
  have i: "init_state P fa = init_state Q fa" for fa
    by (simp add: init_state_def assms(8))
  show ?thesis
    unfolding simulate_def day_loop_eq assms(5,6) run_days_cong [OF assms(1-5,7)] n i
    by (rule refl)
qed

subsection \<open>Two invocations\<close>

lemma env_of_simps [simp]:
  "rand_ref (env_of r st) = r"
  "futureAdds_v (env_of r st) = futureAdds st"
  "queue_v (env_of r st) = queue st"
  "queueSizes_v (env_of r st) = queueSizes st"
  "waits_v (env_of r st) = waits st"
  "totalSlots_v (env_of r st) = totalSlots st"
  "usedSlots_v (env_of r st) = usedSlots st"
  by (simp_all add: env_of_def)

lemma put_cell_put_cell [simp]: "put_cell r (put_cell r w a0) a1 = put_cell r w a1"
  by (simp add: put_cell_def)

lemma rand_w_put_cell:
  "r < length (cells w) \<Longrightarrow>
   rand_w r (put_cell r w a0) = (fst (mulberry32_next a0), put_cell r w (snd (mulberry32_next a0)))"
  by (simp add: rand_w_def put_cell_def case_prod_beta)

lemma service_step_w_conc:
  assumes "r < length (cells w)"
  shows "service_step_w P d en (conc r w st) = conc r w (service_step P d en st)"
  by (simp add: service_step_w_def service_step_def conc_def rand_w_put_cell [OF assms]
      case_prod_beta Let_def env_of_def)

lemma service_loop_w_conc:
  assumes "r < length (cells w)"
  shows "service_loop_w P d n (conc r w st) = conc r w (service_loop P d n st)"
proof (induction n arbitrary: st)
  case 0
  show ?case by simp
next
  case (Suc n)
  show ?case
  proof (cases "queue st")
    case Nil
    then show ?thesis by (simp add: conc_def)
  next
    case (Cons en rest)
    let ?st1 = "st\<lparr>usedSlots := usedSlots st + 1, queue := rest\<rparr>"
    have q: "queue_v (fst (conc r w st)) = en # rest"
      using Cons by (simp add: conc_def)
    have step: "((fst (conc r w st))\<lparr>usedSlots_v := usedSlots_v (fst (conc r w st)) + 1,
              queue_v := rest\<rparr>, snd (conc r w st)) = conc r w ?st1"
      by (simp add: conc_def env_of_def)
    have "service_loop_w P d (Suc n) (conc r w st)
        = service_loop_w P d n (service_step_w P d en (conc r w ?st1))"
      by (simp only: service_loop_w.simps q list.case step)
    also have "\<dots> = service_loop_w P d n (conc r w (service_step P d en ?st1))"
      by (simp only: service_step_w_conc [OF assms])
    also have "\<dots> = conc r w (service_loop P d n (service_step P d en ?st1))"
      by (rule Suc.IH)
    also have "\<dots> = conc r w (service_loop P d (Suc n) st)"
      using Cons by simp
    finally show ?thesis .
  qed
qed

lemma conc_simps [simp]:
  "fst (conc r w st) = env_of r st" "snd (conc r w st) = put_cell r w (rng_a st)"
  by (simp_all add: conc_def)

lemma cells_put_cell [simp]: "length (cells (put_cell r w a0)) = length (cells w)"
  by (simp add: put_cell_def)

lemma rand_w_source_iter:
  assumes "r < length (cells w)"
  shows "source_iter (rand_w r) n (put_cell r w a0) = put_cell r w (source_iter mulberry32_next n a0)"
    and "acc (rand_w r) n (put_cell r w a0) = acc mulberry32_next n a0"
  by (induction n arbitrary: a0) (simp_all add: rand_w_put_cell [OF assms])

lemma poisson_w_conc:
  assumes "r < length (cells w)"
  shows "poisson lam (rand_w r) (put_cell r w a0) =
     map_option (\<lambda>(k, a1). (k, put_cell r w a1)) (poisson lam mulberry32_next a0)"
proof (cases "lam \<le> 0")
  case True
  then show ?thesis by (simp add: poisson_def)
next
  case False
  let ?L = "exp (- lam)"
  obtain k where k: "poisson_loop mulberry32_next ?L 0 1 a0
        = Some (k, source_iter mulberry32_next (Suc k) a0)"
      "acc mulberry32_next (Suc k) a0 \<le> ?L" "\<forall>j<k. ?L < acc mulberry32_next (Suc j) a0"
    using poisson_loop_returns [OF mulberry32_bounded, of ?L a0] by auto
  have "poisson_loop (rand_w r) ?L 0 1 (put_cell r w a0)
      = Some (0 + k, source_iter (rand_w r) (Suc k) (put_cell r w a0))"
    by (rule poisson_loop_stops) (use k(2,3) in \<open>simp_all only: rand_w_source_iter [OF assms] mult_1\<close>)
  then have "poisson_loop (rand_w r) ?L 0 1 (put_cell r w a0)
      = Some (k, put_cell r w (source_iter mulberry32_next (Suc k) a0))"
    by (simp only: rand_w_source_iter [OF assms] add_0)
  then show ?thesis
    using False k(1) by (simp add: poisson_def del: source_iter.simps)
qed

lemma day_body_w_conc:
  assumes "r < length (cells w)"
  shows "day_body_w P d (conc r w st) = map_option (conc r w) (day_body P d st)"
proof (cases "poisson (arrivalRate P) mulberry32_next (rng_a st)")
  case None
  then show ?thesis
    by (simp add: day_body_w_def day_body_def poisson_w_conc [OF assms])
next
  case (Some ka)
  obtain k a1 where ka: "ka = (k, a1)" by (cases ka)
  let ?st1 = "st\<lparr>rng_a := a1,
      queue := push_arrivals (arrivals k (futureAdds st) d) d (queue st),
      totalSlots := totalSlots st + cap P\<rparr>"
  let ?st2 = "service_loop P d (cap P) ?st1"
  have P1: "poisson (arrivalRate P) (rand_w r) (put_cell r w (rng_a st)) = Some (k, put_cell r w a1)"
    by (simp add: poisson_w_conc [OF assms] Some ka)
  have e1: "((env_of r st)\<lparr>queue_v := push_arrivals (arrivals k (futureAdds st) d) d (queue st),
        totalSlots_v := totalSlots st + cap P\<rparr>, put_cell r w a1)
      = (env_of r ?st1, put_cell r w (rng_a ?st1))"
    by (simp add: env_of_def)
  have loop: "service_loop_w P d (cap P) (env_of r ?st1, put_cell r w (rng_a ?st1))
      = (env_of r ?st2, put_cell r w (rng_a ?st2))"
    using service_loop_w_conc [OF assms, of P d "cap P" ?st1] by (simp only: conc_def)
  have out: "((env_of r ?st2)\<lparr>queueSizes_v := queueSizes ?st2 @ [length (queue ?st2)]\<rparr>,
        put_cell r w (rng_a ?st2))
      = conc r w (?st2\<lparr>queueSizes := queueSizes ?st2 @ [length (queue ?st2)]\<rparr>)"
    by (simp add: conc_def env_of_def)
  have "day_body_w P d (conc r w st)
      = (let (e2, w2) = service_loop_w P d (cap P)
            ((env_of r st)\<lparr>queue_v := push_arrivals (arrivals k (futureAdds st) d) d (queue st),
               totalSlots_v := totalSlots st + cap P\<rparr>, put_cell r w a1)
         in Some (e2\<lparr>queueSizes_v := queueSizes_v e2 @ [length (queue_v e2)]\<rparr>, w2))"
    by (simp add: day_body_w_def P1 Let_def)
  also have "\<dots> = Some ((env_of r ?st2)\<lparr>queueSizes_v := queueSizes ?st2 @ [length (queue ?st2)]\<rparr>,
          put_cell r w (rng_a ?st2))"
    unfolding e1 loop by (simp only: Let_def prod.case env_of_simps)
  also have "\<dots> = map_option (conc r w) (day_body P d st)"
    unfolding out by (simp add: day_body_def Some ka Let_def)
  finally show ?thesis .
qed

lemma day_loop_w_conc:
  assumes "r < length (cells w)"
  shows "day_loop_w P d (conc r w st) = map_option (conc r w) (day_loop P d st)"
proof (induction P d st rule: day_loop.induct)
  case (1 P d st)
  show ?case
  proof (cases "real d < days P")
    case False
    then show ?thesis
      by (subst day_loop_w.simps, subst day_loop.simps) simp
  next
    case True
    show ?thesis
    proof (cases "day_body P d st")
      case None
      then show ?thesis
        using True
        by (subst day_loop_w.simps, subst day_loop.simps) (simp add: day_body_w_conc [OF assms])
    next
      case (Some st')
      then show ?thesis
        using True "1.IH" [OF True Some]
        by (subst day_loop_w.simps, subst day_loop.simps) (simp add: day_body_w_conc [OF assms])
    qed
  qed
qed

lemma finalize_w_env_of: "finalize_w (env_of r st) = finalize st"
  by (simp add: finalize_w_def finalize_def)

lemma simulate_w_simulate:
  "\<exists>a0. simulate_w P w =
     map_option (\<lambda>out. (out, w\<lparr>cells := cells w @ [a0]\<rparr>)) (simulate P)"
proof -
  let ?r = "length (cells w)"
  let ?w1 = "w\<lparr>cells := cells w @ [ToUint32 (seed P)]\<rparr>"
  have r: "?r < length (cells ?w1)"
    by simp
  have put: "put_cell ?r ?w1 a1 = w\<lparr>cells := cells w @ [a1]\<rparr>" for a1
    by (simp add: put_cell_def)
  show ?thesis
  proof (cases "new_Array_fill0 (days P + rebookDelay P + 2)")
    case (Inl err)
    then have "simulate_w P w
        = map_option (\<lambda>out. (out, w\<lparr>cells := cells w @ [ToUint32 (seed P)]\<rparr>)) (simulate P)"
      by (simp add: simulate_w_def simulate_def mulberry32_w_def)
    then show ?thesis ..
  next
    case (Inr fa)
    have init: "(\<lparr>rand_ref = ?r, futureAdds_v = fa, queue_v = [], queueSizes_v = [],
                       waits_v = [], totalSlots_v = 0, usedSlots_v = 0\<rparr>, ?w1)
        = conc ?r ?w1 (init_state P fa)"
      by (simp add: conc_def env_of_def init_state_def put mulberry32_def)
    obtain st where st: "day_loop P 0 (init_state P fa) = Some st"
      using run_days_returns [of P "ndays P" "init_state P fa"] by (auto simp: day_loop_eq)
    have "day_loop_w P 0 (conc ?r ?w1 (init_state P fa)) = Some (conc ?r ?w1 st)"
      by (simp add: day_loop_w_conc [OF r] st)
    then have "simulate_w P w = Some (Inr (finalize st), w\<lparr>cells := cells w @ [rng_a st]\<rparr>)"
      by (simp add: simulate_w_def mulberry32_w_def Inr init conc_def finalize_w_env_of put)
    then have "simulate_w P w
        = map_option (\<lambda>out. (out, w\<lparr>cells := cells w @ [rng_a st]\<rparr>)) (simulate P)"
      by (simp add: simulate_def Inr st)
    then show ?thesis ..
  qed
qed

text \<open>
  Claim C1. An invocation of \<open>simulate\<close> on a parameter record gives the same outcome in
  every world: it allocates the variable of its own source, draws from that cell only and
  leaves the world as it was but for the new cell. Hence two invocations on the same
  record, the second in the world the first has left, give the same \<open>queueSizes\<close>,
  \<open>waits\<close> and \<open>metrics\<close>; and the outcome is that of the functional model \<open>simulate\<close>.
\<close>

theorem simulate_deterministic:
  "\<exists>out. simulate P = Some out
     \<and> (\<forall>w :: 'w world_scheme. \<exists>a0. simulate_w P w = Some (out, w\<lparr>cells := cells w @ [a0]\<rparr>))
     \<and> (\<forall>w :: 'w world_scheme. \<exists>w1 w2. simulate_w P w = Some (out, w1)
           \<and> simulate_w P w1 = Some (out, w2))"
proof -
  obtain out where out: "simulate P = Some out"
    using simulate_total [of P] by auto
  have one: "\<exists>a0. simulate_w P w = Some (out, w\<lparr>cells := cells w @ [a0]\<rparr>)"
    for w :: "'w world_scheme"
    using simulate_w_simulate [of P w] by (simp add: out)
  have two: "\<exists>w1 w2. simulate_w P w = Some (out, w1) \<and> simulate_w P w1 = Some (out, w2)"
    for w :: "'w world_scheme"
  proof -
    obtain a0 where "simulate_w P w = Some (out, w\<lparr>cells := cells w @ [a0]\<rparr>)"
      using one by blast
    moreover obtain a1 where "simulate_w P (w\<lparr>cells := cells w @ [a0]\<rparr>)
        = Some (out, w\<lparr>cells := cells w @ [a0]\<rparr>\<lparr>cells := cells (w\<lparr>cells := cells w @ [a0]\<rparr>) @ [a1]\<rparr>)"
      using one by blast
    ultimately show ?thesis by blast
  qed
  show ?thesis
    using out one two by blast
qed

section \<open>Statistics and the Poisson sampler\<close>

subsection \<open>Statistics\<close>

lemma quantile_Nil [simp]: "quantile [] q = Null"
  by (simp add: quantile_def)

lemma mean_Nil [simp]: "mean [] = Null"
  by (simp add: mean_def)

lemma withinT_Nil [simp]: "withinT [] t = Null"
  by (simp add: withinT_def)

lemma quantile_index:
  assumes "ws \<noteq> []" and "0 \<le> q" and "q \<le> 1"
  shows "0 \<le> \<lfloor>(real (length ws) - 1) * q\<rfloor>"
    and "\<lfloor>(real (length ws) - 1) * q\<rfloor> < int (length ws)"
proof -
  have n: "1 \<le> real (length ws)"
    using assms(1) by (cases ws) simp_all
  then have x0: "0 \<le> (real (length ws) - 1) * q"
    using assms(2) by simp
  have "(real (length ws) - 1) * q \<le> (real (length ws) - 1) * 1"
    using n assms(3) by (intro mult_left_mono) simp_all
  then have x1: "(real (length ws) - 1) * q < real (length ws)"
    by simp
  show "0 \<le> \<lfloor>(real (length ws) - 1) * q\<rfloor>"
    using x0 by simp
  show "\<lfloor>(real (length ws) - 1) * q\<rfloor> < int (length ws)"
    using x1 by (simp add: floor_less_iff)
qed

lemma quantile_index_nat:
  assumes "ws \<noteq> []" and "0 \<le> q" and "q \<le> 1"
  shows "nat \<lfloor>(real (length ws) - 1) * q\<rfloor> < length ws"
proof -
  define i where "i = \<lfloor>(real (length ws) - 1) * q\<rfloor>"
  have "0 \<le> i" "i < int (length ws)"
    unfolding i_def using quantile_index [OF assms] by blast+
  then have "nat i < length ws"
    by linarith
  then show ?thesis
    by (simp only: i_def)
qed

lemma quantile_nth:
  assumes "ws \<noteq> []" and "0 \<le> q" and "q \<le> 1"
  shows "quantile ws q = Num (real_of_int (ws ! nat \<lfloor>(real (length ws) - 1) * q\<rfloor>))"
  using quantile_index [OF assms] assms(1) by (simp add: quantile_def Let_def)

lemma quantile_mono:
  assumes "sorted ws" and "ws \<noteq> []" and "0 \<le> q" and "q \<le> q'" and "q' \<le> 1"
  shows "\<exists>a b. quantile ws q = Num a \<and> quantile ws q' = Num b \<and> a \<le> b"
proof -
  let ?i = "\<lfloor>(real (length ws) - 1) * q\<rfloor>" and ?j = "\<lfloor>(real (length ws) - 1) * q'\<rfloor>"
  have n: "1 \<le> real (length ws)"
    using assms(2) by (cases ws) simp_all
  have "(real (length ws) - 1) * q \<le> (real (length ws) - 1) * q'"
    using n assms(4) by (intro mult_left_mono) simp_all
  then have ij: "?i \<le> ?j"
    by (rule floor_mono)
  have i0: "0 \<le> ?i" and j1: "?j < int (length ws)"
    using quantile_index [OF assms(2)] assms(3-5) by auto
  have "nat ?j < length ws"
    using assms(2-5) by (intro quantile_index_nat) auto
  moreover have "nat ?i \<le> nat ?j"
    using ij by (rule nat_mono)
  ultimately have "ws ! nat ?i \<le> ws ! nat ?j"
    using assms(1) by (intro sorted_nth_mono)
  moreover have "quantile ws q = Num (real_of_int (ws ! nat ?i))"
    using assms(2-5) by (intro quantile_nth) auto
  moreover have "quantile ws q' = Num (real_of_int (ws ! nat ?j))"
    using assms(2-5) by (intro quantile_nth) auto
  ultimately show ?thesis by simp
qed

text \<open>
  Claim C4. The returned \<open>waits\<close> is sorted ascending and the reported statistics are
  computed from it: \<open>medianWait = quantile 0.5\<close>, \<open>p90Wait = quantile 0.9\<close>. When
  \<open>waits\<close> is empty, \<open>quantile q\<close>, the mean and \<open>withinT t\<close> are all \<open>null\<close>. When it
  has \<open>n > 0\<close> elements and \<open>0 \<le> q \<le> 1\<close>, the index \<open>floor ((n - 1) * q)\<close> is within
  the array and \<open>quantile q\<close> is the element at that index, with no interpolation.
\<close>

theorem quantile_nearest_rank:
  assumes "simulate P = Some (Inr r)"
  shows "sorted (out_waits r)
     \<and> medianWait (out_metrics r) = quantile (out_waits r) (1 / 2)
     \<and> p90Wait (out_metrics r) = quantile (out_waits r) (9 / 10)
     \<and> meanWait (out_metrics r) = mean (out_waits r)
     \<and> within14 (out_metrics r) = withinT (out_waits r) 14
     \<and> within28 (out_metrics r) = withinT (out_waits r) 28
     \<and> within42 (out_metrics r) = withinT (out_waits r) 42
     \<and> (out_waits r = [] \<longrightarrow>
           (\<forall>q. quantile (out_waits r) q = Null) \<and> mean (out_waits r) = Null
           \<and> (\<forall>t. withinT (out_waits r) t = Null))
     \<and> (out_waits r \<noteq> [] \<longrightarrow>
           (\<forall>q. 0 \<le> q \<and> q \<le> 1 \<longrightarrow>
              nat \<lfloor>(real (length (out_waits r)) - 1) * q\<rfloor> < length (out_waits r)
              \<and> quantile (out_waits r) q =
                  Num (real_of_int (out_waits r ! nat \<lfloor>(real (length (out_waits r)) - 1) * q\<rfloor>))))"
proof -
  from assms obtain st where st: "sim_run P (ndays P) = Some st" "r = finalize st"
    by (rule simulate_InrD)
  have fields: "sorted (out_waits r)"
      "medianWait (out_metrics r) = quantile (out_waits r) (1 / 2)"
      "p90Wait (out_metrics r) = quantile (out_waits r) (9 / 10)"
      "meanWait (out_metrics r) = mean (out_waits r)"
      "within14 (out_metrics r) = withinT (out_waits r) 14"
      "within28 (out_metrics r) = withinT (out_waits r) 28"
      "within42 (out_metrics r) = withinT (out_waits r) 42"
    by (simp_all add: st(2))
  have empty: "(\<forall>q. quantile ws q = Null) \<and> mean ws = Null \<and> (\<forall>t. withinT ws t = Null)"
    if "ws = []" for ws
    using that by simp
  have nonempty: "nat \<lfloor>(real (length ws) - 1) * q\<rfloor> < length ws
      \<and> quantile ws q = Num (real_of_int (ws ! nat \<lfloor>(real (length ws) - 1) * q\<rfloor>))"
    if "ws \<noteq> []" "0 \<le> q \<and> q \<le> 1" for ws q
    using quantile_index_nat [of ws q] quantile_nth [of ws q] that by blast
  show ?thesis
    using fields empty [of "out_waits r"] nonempty [of "out_waits r"] by blast
qed

text \<open>
  Claim C9. For a run whose \<open>waits\<close> is not empty, \<open>quantile 0.5\<close> and \<open>quantile 0.9\<close>
  are numbers, they are the reported \<open>medianWait\<close> and \<open>p90Wait\<close>, and
  \<open>medianWait \<le> p90Wait\<close>.
\<close>

theorem median_le_p90:
  assumes "simulate P = Some (Inr r)" and "out_waits r \<noteq> []"
  shows "\<exists>a b. quantile (out_waits r) (1 / 2) = Num a \<and> quantile (out_waits r) (9 / 10) = Num b
      \<and> medianWait (out_metrics r) = Num a \<and> p90Wait (out_metrics r) = Num b \<and> a \<le> b"
proof -
  from assms(1) obtain st where st: "sim_run P (ndays P) = Some st" "r = finalize st"
    by (rule simulate_InrD)
  have "sorted (out_waits r)"
    by (simp add: st(2))
  then obtain a b where "quantile (out_waits r) (1 / 2) = Num a"
      "quantile (out_waits r) (9 / 10) = Num b" "a \<le> b"
    using quantile_mono [of "out_waits r" "1 / 2" "9 / 10"] assms(2) by auto
  then show ?thesis
    by (auto simp: st(2))
qed

text \<open>
  Claim C7. \<open>poisson\<close> returns 0 without a draw when \<open>lambda \<le> 0\<close>. Otherwise, for a
  source whose draws lie in \<open>[0, c]\<close> with \<open>c < 1\<close>, it returns, and it returns the
  number of draws minus one: the accumulator, the product of the draws so far starting at 1,
  is above \<open>exp (- lambda)\<close> after each of the first \<open>k\<close> draws and at or below it after
  draw \<open>k + 1\<close>; the source is left after \<open>k + 1\<close> draws.
\<close>

theorem poisson_knuth:
  "(lambda \<le> 0 \<longrightarrow> poisson lambda rand s = Some (0, s)) \<and>
   (0 < lambda \<longrightarrow> bounded_source rand c \<longrightarrow>
      (\<exists>k. poisson lambda rand s = Some (k, source_iter rand (Suc k) s)
          \<and> acc rand (Suc k) s \<le> exp (- lambda)
          \<and> (\<forall>j\<le>k. exp (- lambda) < acc rand j s)))"
proof (intro conjI impI)
  assume "lambda \<le> 0"
  then show "poisson lambda rand s = Some (0, s)"
    by (simp add: poisson_def)
next
  assume pos: "0 < lambda" and b: "bounded_source rand c"
  obtain k where k: "poisson_loop rand (exp (- lambda)) 0 1 s = Some (k, source_iter rand (Suc k) s)"
      "acc rand (Suc k) s \<le> exp (- lambda)" "\<forall>j<k. exp (- lambda) < acc rand (Suc j) s"
    using poisson_loop_returns [OF b, of "exp (- lambda)" s] by auto
  have "exp (- lambda) < acc rand j s" if "j \<le> k" for j
  proof (cases j)
    case 0
    then show ?thesis using pos by simp
  next
    case (Suc i)
    then show ?thesis using k(3) that by auto
  qed
  with k pos show "\<exists>k. poisson lambda rand s = Some (k, source_iter rand (Suc k) s)
      \<and> acc rand (Suc k) s \<le> exp (- lambda) \<and> (\<forall>j\<le>k. exp (- lambda) < acc rand j s)"
    by (auto simp: poisson_def)
qed

theorem poisson_knuth_witness:
  "((0::real) \<le> 0 \<and> poisson 0 mulberry32_next (42::int) = Some (0, 42))
   \<and> ((0::real) < 18 \<and> bounded_source mulberry32_next (4294967295 / 4294967296)
      \<and> (\<exists>k. poisson 18 mulberry32_next 42 = Some (k, source_iter mulberry32_next (Suc k) 42)
            \<and> acc mulberry32_next (Suc k) 42 \<le> exp (- 18)
            \<and> (\<forall>j\<le>k. exp (- 18) < acc mulberry32_next j 42)))"
  using poisson_knuth [of 0 mulberry32_next 42 1]
    poisson_knuth [of 18 mulberry32_next 42 "4294967295 / 4294967296"] mulberry32_bounded
  by simp

section \<open>Concrete runs\<close>

subsection \<open>Two days with arrivals\<close>

lemma poisson_loop_continue:
  "L < p * fst (rand s) \<Longrightarrow>
   poisson_loop rand L k p s = poisson_loop rand L (Suc k) (p * fst (rand s)) (snd (rand s))"
  by (subst poisson_loop.simps) (simp add: Let_def)

lemma poisson_loop_stop:
  "p * fst (rand s) \<le> L \<Longrightarrow> poisson_loop rand L k p s = Some (k, snd (rand s))"
  by (subst poisson_loop.simps) (simp add: Let_def)

lemma exp_minus_one_bounds: "1 / 3 \<le> exp (- 1 :: real)" "exp (- 1 :: real) \<le> 1 / 2"
proof -
  have "exp (1::real) \<le> 3"
    by (rule exp_le)
  moreover have "(2::real) \<le> exp 1"
    using exp_ge_add_one_self [of "1::real"] by simp
  ultimately show "1 / 3 \<le> exp (- 1 :: real)" "exp (- 1 :: real) \<le> 1 / 2"
    by (simp_all add: exp_minus field_simps)
qed

lemma draws_seed5:
  "mulberry32_next 5 = (2962560684 / 4294967296, 1831565818)"
  "mulberry32_next 1831565818 = (3318907087 / 4294967296, 3663131631)"
  "mulberry32_next 3663131631 = (943874942 / 4294967296, 5494697444)"
  "mulberry32_next 5494697444 = (2676532661 / 4294967296, 7326263257)"
  "mulberry32_next 7326263257 = (365661495 / 4294967296, 9157829070)"
  "mulberry32_next 9157829070 = (2543329052 / 4294967296, 10989394883)"
  by (simp_all add: mulberry32_next_def Let_def)

lemma poisson_day0: "poisson 1 mulberry32_next 5 = Some (2, 5494697444)"
proof -
  have "poisson 1 mulberry32_next 5 = poisson_loop mulberry32_next (exp (- 1)) 0 1 5"
    by (simp add: poisson_def)
  also have "\<dots> = poisson_loop mulberry32_next (exp (- 1)) (Suc 0)
      (2962560684 / 4294967296) 1831565818"
    using exp_minus_one_bounds(2)
    by (subst poisson_loop_continue) (simp_all add: draws_seed5)
  also have "\<dots> = poisson_loop mulberry32_next (exp (- 1)) (Suc (Suc 0))
      (2962560684 / 4294967296 * (3318907087 / 4294967296)) 3663131631"
    using exp_minus_one_bounds(2)
    by (subst poisson_loop_continue) (simp_all add: draws_seed5)
  also have "\<dots> = Some (Suc (Suc 0), 5494697444)"
    using exp_minus_one_bounds(1)
    by (subst poisson_loop_stop) (simp_all add: draws_seed5)
  finally show ?thesis
    by (simp add: numeral_2_eq_2)
qed

lemma poisson_day1: "poisson 1 mulberry32_next 7326263257 = Some (0, 9157829070)"
proof -
  have "poisson 1 mulberry32_next 7326263257
      = poisson_loop mulberry32_next (exp (- 1)) 0 1 7326263257"
    by (simp add: poisson_def)
  also have "\<dots> = Some (0, 9157829070)"
    using exp_minus_one_bounds(1)
    by (subst poisson_loop_stop) (simp_all add: draws_seed5)
  finally show ?thesis .
qed

lemma two_days_alloc:
  "new_Array_fill0 (days two_days + rebookDelay two_days + 2) = Inr (replicate 11 0)"
  by (simp add: two_days_def new_Array_fill0_def)

lemma two_days_cap: "cap two_days = Suc 0"
  by (simp add: two_days_def cap_def)

lemma two_days_day0:
  "day_body two_days 0 (init_state two_days (replicate 11 0)) =
     Some \<lparr>rng_a = 7326263257, futureAdds = replicate 11 0, queue = [0], queueSizes = [1],
       waits = [0], totalSlots = 1, usedSlots = 1\<rparr>"
proof -
  have "rng_a (init_state two_days (replicate 11 0)) = 5"
    by (simp add: init_state_def two_days_def mulberry32_def ToUint32_def)
  moreover have "arrivalRate two_days = 1"
    by (simp add: two_days_def)
  ultimately show ?thesis
    by (simp add: day_body_def poisson_day0 two_days_cap arrivals_def push_arrivals_def Let_def
        numeral_2_eq_2 init_state_def service_step_def draws_seed5)
       (simp add: two_days_def)
qed

lemma two_days_day1:
  "day_body two_days 1 \<lparr>rng_a = 7326263257, futureAdds = replicate 11 0, queue = [0],
       queueSizes = [1], waits = [0], totalSlots = 1, usedSlots = 1\<rparr> =
     Some \<lparr>rng_a = 10989394883, futureAdds = replicate 11 0, queue = [], queueSizes = [1, 0],
       waits = [0, 1], totalSlots = 2, usedSlots = 2\<rparr>"
proof -
  have "arrivalRate two_days = 1"
    by (simp add: two_days_def)
  then show ?thesis
    by (simp add: day_body_def poisson_day1 two_days_cap arrivals_def push_arrivals_def Let_def
        service_step_def draws_seed5)
       (simp add: two_days_def)
qed

lemma two_days_run: "simulate two_days = Some (Inr two_days_result)"
proof -
  have "ndays two_days = Suc (Suc 0)"
    by (simp add: ndays_def two_days_def)
  then have "sim_run two_days (ndays two_days) =
      Some \<lparr>rng_a = 10989394883, futureAdds = replicate 11 0, queue = [], queueSizes = [1, 0],
       waits = [0, 1], totalSlots = 2, usedSlots = 2\<rparr>"
    using two_days_day0 two_days_day1 by (simp add: sim_run_def two_days_alloc)
  then show ?thesis
    by (simp add: simulate_eq two_days_alloc finalize_def two_days_result_def Let_def
        quantile_def mean_def withinT_def)
qed

subsection \<open>Three days with a warm-up\<close>

lemma draws_seed5_more:
  "mulberry32_next 10989394883 = (3092815595 / 4294967296, 12820960696)"
  "mulberry32_next 12820960696 = (1967542611 / 4294967296, 14652526509)"
  "mulberry32_next 14652526509 = (3889614726 / 4294967296, 16484092322)"
  by (simp_all add: mulberry32_next_def Let_def)

lemma poisson_day2: "poisson 1 mulberry32_next 10989394883 = Some (1, 14652526509)"
proof -
  have "poisson 1 mulberry32_next 10989394883
      = poisson_loop mulberry32_next (exp (- 1)) 0 1 10989394883"
    by (simp add: poisson_def)
  also have "\<dots> = poisson_loop mulberry32_next (exp (- 1)) (Suc 0)
      (3092815595 / 4294967296) 12820960696"
    using exp_minus_one_bounds(2)
    by (subst poisson_loop_continue) (simp_all add: draws_seed5_more)
  also have "\<dots> = Some (Suc 0, 14652526509)"
    using exp_minus_one_bounds(1)
    by (subst poisson_loop_stop) (simp_all add: draws_seed5_more)
  finally show ?thesis
    by simp
qed

lemma three_days_params:
  "arrivalRate three_days = 1" "cap three_days = Suc 0" "ndays three_days = 3"
  "warmup three_days = 1" "dnaRate three_days = 12"
  "new_Array_fill0 (days three_days + rebookDelay three_days + 2) = Inr (replicate 12 0)"
  "init_state three_days (replicate 12 0) = three_days_state 0"
  by (simp_all add: three_days_def cap_def ndays_def new_Array_fill0_def init_state_def
      mulberry32_def ToUint32_def three_days_state_def)

lemma three_days_day0: "day_body three_days 0 (three_days_state 0) = Some (three_days_state 1)"
  by (simp add: day_body_def three_days_params poisson_day0 arrivals_def push_arrivals_def Let_def
      numeral_2_eq_2 service_step_def draws_seed5 three_days_state_def)

lemma three_days_day1: "day_body three_days 1 (three_days_state 1) = Some (three_days_state 2)"
  by (simp add: day_body_def three_days_params poisson_day1 arrivals_def push_arrivals_def Let_def
      service_step_def draws_seed5 three_days_state_def)

lemma three_days_day2: "day_body three_days 2 (three_days_state 2) = Some (three_days_state 3)"
  by (simp add: day_body_def three_days_params poisson_day2 arrivals_def push_arrivals_def Let_def
      service_step_def draws_seed5_more three_days_state_def)

lemma three_days_sim_run:
  "sim_run three_days 0 = Some (three_days_state 0)"
  "sim_run three_days 1 = Some (three_days_state 1)"
  "sim_run three_days 2 = Some (three_days_state 2)"
  "sim_run three_days 3 = Some (three_days_state 3)"
  "sim_run three_days (Suc 0) = Some (three_days_state 1)"
proof -
  show 0: "sim_run three_days 0 = Some (three_days_state 0)"
    by (simp add: sim_run_def three_days_params)
  show "sim_run three_days (Suc 0) = Some (three_days_state 1)"
    by (simp add: sim_run_Suc 0 three_days_day0)
  then show 1: "sim_run three_days 1 = Some (three_days_state 1)"
    by simp
  have "sim_run three_days (Suc 1) = Some (three_days_state 2)"
    by (simp only: sim_run_Suc 1 option.case three_days_day1)
  then show 2: "sim_run three_days 2 = Some (three_days_state 2)"
    by (simp add: numeral_2_eq_2)
  have "sim_run three_days (Suc 2) = Some (three_days_state 3)"
    by (simp only: sim_run_Suc 2 option.case three_days_day2)
  then show "sim_run three_days 3 = Some (three_days_state 3)"
    by (simp add: numeral_3_eq_3 numeral_2_eq_2)
qed

lemma three_days_run: "simulate three_days = Some (Inr three_days_result)"
  by (simp add: simulate_eq three_days_params three_days_sim_run finalize_def
      three_days_result_def three_days_state_def Let_def quantile_def mean_def withinT_def)

lemma three_days_services:
  "day_queue three_days 0 = [0, 0]" "day_queue three_days 1 = [0]" "day_queue three_days 2 = [2]"
  "day_attended three_days 0 = [0]" "day_attended three_days 1 = [0]"
  "day_attended three_days 2 = [2]" "day_attended three_days (Suc 0) = [0]"
proof -
  have rng: "day_rng three_days 0 = 5494697444" "day_rng three_days 1 = 9157829070"
      "day_rng three_days 2 = 14652526509"
    by (simp_all add: day_rng_def three_days_sim_run three_days_params three_days_state_def
        poisson_day0 poisson_day1 poisson_day2)
  have q0: "day_queue three_days 0 = [0, 0]"
    by (simp add: day_queue_def three_days_sim_run three_days_params three_days_state_def
        poisson_day0 arrivals_def push_arrivals_def numeral_2_eq_2)
  have q12: "day_queue three_days 1 = [0]" "day_queue three_days 2 = [2]"
    by (simp_all add: day_queue_def three_days_sim_run three_days_params three_days_state_def
        poisson_day1 poisson_day2 arrivals_def push_arrivals_def)
  note q = q0 q12
  show "day_queue three_days 0 = [0, 0]" "day_queue three_days 1 = [0]"
      "day_queue three_days 2 = [2]"
    by (rule q)+
  show "day_attended three_days 0 = [0]" "day_attended three_days 1 = [0]"
      "day_attended three_days 2 = [2]" "day_attended three_days (Suc 0) = [0]"
    using q(2) rng(2)
    by (simp_all add: day_attended_def day_services_def q rng three_days_params draws_seed5
        draws_seed5_more)
qed

lemma three_days_recorded:
  "recorded_waits three_days 0 = []" "recorded_waits three_days 1 = [1]"
  "recorded_waits three_days 2 = [0]"
  by (simp_all add: recorded_waits_def three_days_params three_days_services)

subsection \<open>A run with no demand\<close>

lemma service_loop_Nil: "queue st = [] \<Longrightarrow> service_loop P d n st = st"
  by (cases n) simp_all

lemma zero_demand_day:
  "d < 12 \<Longrightarrow>
   day_body zero_demand d \<lparr>rng_a = 42, futureAdds = replicate 12 0, queue = [],
       queueSizes = qs, waits = [], totalSlots = t, usedSlots = 0\<rparr> =
     Some \<lparr>rng_a = 42, futureAdds = replicate 12 0, queue = [], queueSizes = qs @ [0],
       waits = [], totalSlots = t + 10, usedSlots = 0\<rparr>"
  by (simp add: day_body_def poisson_def zero_demand_def arrivals_def push_arrivals_def
      service_loop_Nil cap_def Let_def)

lemma zero_demand_alloc:
  "new_Array_fill0 (days zero_demand + rebookDelay zero_demand + 2) = Inr (replicate 12 0)"
  by (simp add: zero_demand_def new_Array_fill0_def)

lemma zero_demand_run: "simulate zero_demand = Some (Inr zero_demand_result)"
proof -
  have "ndays zero_demand = Suc (Suc (Suc 0))"
    by (simp add: ndays_def zero_demand_def)
  moreover have "init_state zero_demand (replicate 12 0) =
      \<lparr>rng_a = 42, futureAdds = replicate 12 0, queue = [],
       queueSizes = [], waits = [], totalSlots = 0, usedSlots = 0\<rparr>"
    by (simp add: init_state_def zero_demand_def mulberry32_def ToUint32_def)
  ultimately have "sim_run zero_demand (ndays zero_demand) =
      Some \<lparr>rng_a = 42, futureAdds = replicate 12 0, queue = [], queueSizes = [0, 0, 0],
       waits = [], totalSlots = 30, usedSlots = 0\<rparr>"
    by (simp add: sim_run_def zero_demand_alloc zero_demand_day)
  then show ?thesis
    by (simp add: simulate_eq zero_demand_alloc finalize_def zero_demand_result_def Let_def)
qed

subsection \<open>Runs that throw\<close>

lemma simulate_throws_iff:
  "simulate P = Some (Inl RangeError) \<longleftrightarrow>
     \<not> (of_int \<lfloor>days P + rebookDelay P + 2\<rfloor> = days P + rebookDelay P + 2
        \<and> 0 \<le> days P + rebookDelay P + 2 \<and> days P + rebookDelay P + 2 < 2 ^ 32)"
  by (auto simp: simulate_eq new_Array_fill0_def split: option.splits)

text \<open>
  Claim C2, at two failing inputs. All fields are finite numbers. In the smoke-test
  scenario with \<open>rebookDelay = 0.5\<close> the length \<open>days + rebookDelay + 2\<close> is 182.5; in
  the one-day scenario with \<open>rebookDelay = -5\<close> it is -2. Neither is an array length,
  and \<open>new Array\<close> throws a RangeError.
\<close>

theorem simulate_throws_fractional_delay:
  "simulate fractional_delay = Some (Inl RangeError)
   \<and> simulate (negative_delay\<lparr>rebookDelay := - 5\<rparr>) = Some (Inl RangeError)"
  by (simp add: simulate_throws_iff fractional_delay_def scenario1_def negative_delay_def)

subsection \<open>A run with a negative delay\<close>

lemma negative_delay_alloc:
  "new_Array_fill0 (days negative_delay + rebookDelay negative_delay + 2) = Inr []"
  by (simp add: negative_delay_def new_Array_fill0_def)

lemma negative_delay_draw:
  "\<exists>k a1. poisson 100 mulberry32_next 0 = Some (k, a1) \<and> 1 \<le> k"
proof -
  let ?L = "exp (- 100 :: real)"
  obtain k where k: "poisson_loop mulberry32_next ?L 0 1 0
        = Some (k, source_iter mulberry32_next (Suc k) 0)"
      "acc mulberry32_next (Suc k) 0 \<le> ?L"
    using poisson_loop_returns [OF mulberry32_bounded, of ?L 0] by auto
  have "(101::real) \<le> exp 100"
    using exp_ge_add_one_self [of "100::real"] by simp
  then have small: "?L \<le> 1 / 101"
    by (simp add: exp_minus field_simps)
  have first: "fst (mulberry32_next 0) = 1144304738 / 4294967296"
    by (simp add: mulberry32_next_def Let_def)
  have "k \<noteq> 0"
  proof
    assume "k = 0"
    then have "1144304738 / 4294967296 \<le> ?L"
      using k(2) first by simp
    with small show False by simp
  qed
  then show ?thesis
    using k(1) by (auto simp: poisson_def)
qed

lemma negative_delay_day0:
  assumes "poisson 100 mulberry32_next 0 = Some (k, a1)"
  shows "day_body negative_delay 0 (init_state negative_delay []) =
     Some \<lparr>rng_a = a1, futureAdds = [], queue = [], queueSizes = [0], waits = [],
       totalSlots = 0, usedSlots = 0\<rparr>"
proof -
  have "rng_a (init_state negative_delay []) = 0"
    by (simp add: init_state_def negative_delay_def mulberry32_def ToUint32_def)
  moreover have "arrivalRate negative_delay = 100" "cap negative_delay = 0"
    by (simp_all add: negative_delay_def cap_def)
  ultimately show ?thesis
    using assms
    by (simp add: day_body_def arrivals_def push_arrivals_def Let_def init_state_def)
qed

text \<open>
  Claim C3, at a failing input. With \<open>days = 1\<close> and \<open>rebookDelay = -3\<close> the array
  \<open>futureAdds\<close> has length 0. On day 0 the Poisson draw is some \<open>k \<ge> 1\<close>, the read
  \<open>futureAdds[0]\<close> is \<open>undefined\<close>, \<open>arrivals\<close> is NaN and nobody is appended; nobody is
  served, and \<open>queueSizes[0] = 0\<close>, not \<open>0 + k + futureAdds[0] - 0\<close>.
\<close>

theorem conservation_fails_negative_delay:
  "\<exists>k r. poisson_draw negative_delay 0 = Some k \<and> 1 \<le> k
     \<and> day_arrivals negative_delay 0 = None
     \<and> served negative_delay 0 = 0
     \<and> simulate negative_delay = Some (Inr r) \<and> out_queueSizes r = [0]"
proof -
  obtain k a1 where k: "poisson 100 mulberry32_next 0 = Some (k, a1)" "1 \<le> k"
    using negative_delay_draw by blast
  have s0: "sim_run negative_delay 0 = Some (init_state negative_delay [])"
    by (simp add: sim_run_def negative_delay_alloc)
  have s1: "sim_run negative_delay (Suc 0) =
      Some \<lparr>rng_a = a1, futureAdds = [], queue = [], queueSizes = [0], waits = [],
        totalSlots = 0, usedSlots = 0\<rparr>"
    by (simp add: sim_run_def negative_delay_alloc negative_delay_day0 [OF k(1)])
  have init: "rng_a (init_state negative_delay []) = 0" "arrivalRate negative_delay = 100"
      "futureAdds (init_state negative_delay []) = []" "usedSlots (init_state negative_delay []) = 0"
    by (simp_all add: init_state_def negative_delay_def mulberry32_def ToUint32_def)
  have draw: "poisson_draw negative_delay 0 = Some k"
    by (simp add: poisson_draw_def s0 init k(1))
  have arr: "day_arrivals negative_delay 0 = None"
    by (simp add: day_arrivals_def s0 draw init arrivals_def)
  have srv: "served negative_delay 0 = 0"
    by (simp add: served_def s0 s1 init)
  have "ndays negative_delay = Suc 0"
    by (simp add: ndays_def negative_delay_def)
  then have "simulate negative_delay = Some (Inr (finalize \<lparr>rng_a = a1, futureAdds = [],
      queue = [], queueSizes = [0], waits = [], totalSlots = 0, usedSlots = 0\<rparr>))"
    by (simp add: simulate_eq negative_delay_alloc s1)
  then show ?thesis
    using draw arr srv k(2) by simp
qed

subsection \<open>Conservation\<close>

text \<open>Conservation on every day whose \<open>arrivals\<close> is a number, that is, every day
  inside \<open>futureAdds\<close>.\<close>

lemma conservation_in_range:
  assumes "simulate P = Some (Inr r)" and "d < ndays P" and "day_arrivals P d = Some n"
  shows "out_queueSizes r ! d + served P d = (if d = 0 then 0 else out_queueSizes r ! (d - 1)) + n"
    and "served P d = min (cap P) ((if d = 0 then 0 else out_queueSizes r ! (d - 1)) + n)"
proof -
  from assms(1) obtain stf where stf: "sim_run P (ndays P) = Some stf" "r = finalize stf"
    by (rule simulate_InrD)
  obtain fa where fa: "new_Array_fill0 (days P + rebookDelay P + 2) = Inr fa"
    using stf(1) by (auto simp: sim_run_def split: sum.splits)
  obtain st' where st': "sim_run P (Suc d) = Some st'"
    using sim_run_returns [OF fa] by blast
  then obtain st where st: "sim_run P d = Some st" "day_body P d st = Some st'"
    by (rule sim_run_SucD)
  obtain k a1 where k: "poisson (arrivalRate P) mulberry32_next (rng_a st) = Some (k, a1)"
    using st(2) by (rule day_bodyD)
  have arr: "arrivals k (futureAdds st) d = Some n"
    using assms(3) by (simp add: day_arrivals_def poisson_draw_def st(1) k)
  let ?prev = "if d = 0 then 0 else out_queueSizes r ! (d - 1)"
  have before: "length (queue st) = ?prev"
  proof (cases d)
    case 0
    then show ?thesis using sim_run_queue_start [OF st(1)] by simp
  next
    case (Suc m)
    then have "queueSizes stf ! m = length (queue st)"
      using sim_run_queueSizes_nth [OF stf(1), of m st] assms(2) st(1) by simp
    then show ?thesis
      using Suc by (simp add: stf(2))
  qed
  have after: "out_queueSizes r ! d = length (queue st')"
    using sim_run_queueSizes_nth [OF stf(1) assms(2) st'] by (simp add: stf(2))
  have q: "length (queue st') = length (queue st) + n - cap P"
    using day_body_queue(1) [OF st(2) k] by (simp add: arr push_arrivals_def)
  have u: "usedSlots st' = usedSlots st + min (cap P) (length (queue st) + n)"
    using day_body_queue(2) [OF st(2) k] by (simp add: arr push_arrivals_def)
  have srv: "served P d = min (cap P) (length (queue st) + n)"
    using served_eq [OF st(1) st'] u by simp
  show "served P d = min (cap P) (?prev + n)"
    using srv before by simp
  have "length (queue st') + min (cap P) (length (queue st) + n) = length (queue st) + n"
    unfolding q by linarith
  then show "out_queueSizes r ! d + served P d = ?prev + n"
    unfolding after srv before .
qed

text \<open>The days outside \<open>futureAdds\<close>: there are some only when
  \<open>rebookDelay \<le> -3\<close>.\<close>

lemma day_arrivals_None_iff:
  assumes "simulate P = Some (Inr r)"
  shows "day_arrivals P d = None \<longleftrightarrow> days P + rebookDelay P + 2 \<le> real d"
proof -
  from assms obtain stf where "sim_run P (ndays P) = Some stf"
    by (rule simulate_InrD)
  then obtain fa where fa: "new_Array_fill0 (days P + rebookDelay P + 2) = Inr fa"
    by (auto simp: sim_run_def split: sum.splits)
  obtain st where st: "sim_run P d = Some st"
    using sim_run_returns [OF fa] by blast
  obtain k a1 where k: "poisson (arrivalRate P) mulberry32_next (rng_a st) = Some (k, a1)"
    using poisson_mulberry32_returns by blast
  let ?len = "days P + rebookDelay P + 2"
  have int: "of_int \<lfloor>?len\<rfloor> = ?len" and nonneg: "0 \<le> ?len"
    using fa by (auto simp: new_Array_fill0_def split: if_splits)
  have "length (futureAdds st) = nat \<lfloor>?len\<rfloor>"
    using sim_run_futureAdds [OF st fa] new_Array_fill0_length [OF fa] by simp
  then have "day_arrivals P d = None \<longleftrightarrow> nat \<lfloor>?len\<rfloor> \<le> d"
    by (auto simp: day_arrivals_def poisson_draw_def st k arrivals_def)
  also have "\<dots> \<longleftrightarrow> \<lfloor>?len\<rfloor> \<le> int d"
    using nonneg by auto
  also have "\<dots> \<longleftrightarrow> ?len \<le> real d"
    using int by (metis of_int_le_iff of_int_of_nat_eq)
  finally show ?thesis .
qed

subsection \<open>Instances of the theorems\<close>

theorem simulate_deterministic_witness:
  "\<exists>a0 a1. simulate_w two_days \<lparr>cells = [7]\<rparr> = Some (Inr two_days_result, \<lparr>cells = [7, a0]\<rparr>)
     \<and> simulate_w two_days \<lparr>cells = [7, a0]\<rparr>
         = Some (Inr two_days_result, \<lparr>cells = [7, a0, a1]\<rparr>)"
proof -
  obtain out where out: "simulate two_days = Some out"
    and w: "\<forall>w :: world. \<exists>a0. simulate_w two_days w = Some (out, w\<lparr>cells := cells w @ [a0]\<rparr>)"
    using simulate_deterministic [of two_days, where 'w = unit] by blast
  have res: "out = Inr two_days_result"
    using out two_days_run by simp
  obtain a0 where a0: "simulate_w two_days \<lparr>cells = [7]\<rparr> = Some (out, \<lparr>cells = [7, a0]\<rparr>)"
    using w [rule_format, of "\<lparr>cells = [7]\<rparr>"] by auto
  obtain a1 where "simulate_w two_days \<lparr>cells = [7, a0]\<rparr> = Some (out, \<lparr>cells = [7, a0, a1]\<rparr>)"
    using w [rule_format, of "\<lparr>cells = [7, a0]\<rparr>"] by auto
  with a0 res show ?thesis by blast
qed

theorem utilisation_ratio_bounded_witness:
  "simulate three_days = Some (Inr three_days_result)
   \<and> (\<exists>st. sim_run three_days (ndays three_days) = Some st
      \<and> utilisation (out_metrics three_days_result) =
          (if totalSlots st > 0 then real (usedSlots st) / real (totalSlots st) else 0)
      \<and> totalSlots st = ndays three_days * cap three_days
      \<and> usedSlots st = (\<Sum>d<ndays three_days. min (cap three_days) (length (day_queue three_days d)))
      \<and> 0 \<le> utilisation (out_metrics three_days_result)
      \<and> utilisation (out_metrics three_days_result) \<le> 1)
   \<and> real 0 < warmup three_days
   \<and> min (cap three_days) (length (day_queue three_days 0)) = 1
   \<and> utilisation (out_metrics three_days_result) = 1"
proof -
  have "real 0 < warmup three_days"
    and "min (cap three_days) (length (day_queue three_days 0)) = 1"
    and "utilisation (out_metrics three_days_result) = 1"
    by (simp_all add: three_days_params three_days_services three_days_result_def)
  then show ?thesis
    using utilisation_ratio_bounded [OF three_days_run] three_days_run by blast
qed

theorem waits_after_warmup_witness:
  "simulate three_days = Some (Inr three_days_result)
   \<and> out_waits three_days_result
       = sort (concat (map (recorded_waits three_days) [0..<ndays three_days]))
   \<and> 0 \<in> set (out_waits three_days_result)
   \<and> (\<exists>d e. d < ndays three_days \<and> warmup three_days \<le> real d
        \<and> e \<in> set (day_attended three_days d) \<and> e \<in> set (day_services three_days d)
        \<and> e \<le> d \<and> (0::int) = int d - int e)
   \<and> nSeen (out_metrics three_days_result) = length (out_waits three_days_result)
   \<and> day_attended three_days 0 = [0] \<and> real 0 < warmup three_days
   \<and> recorded_waits three_days 0 = []
   \<and> day_attended three_days 2 = [2] \<and> recorded_waits three_days 2 = [0]"
proof -
  have m: "0 \<in> set (out_waits three_days_result)"
    by (simp add: three_days_result_def)
  have c: "day_attended three_days 0 = [0]" "real 0 < warmup three_days"
      "recorded_waits three_days 0 = []"
      "day_attended three_days 2 = [2]" "recorded_waits three_days 2 = [0]"
    by (simp_all add: three_days_services three_days_recorded three_days_params)
  note T = waits_after_warmup [OF three_days_run]
  have "out_waits three_days_result
       = sort (concat (map (recorded_waits three_days) [0..<ndays three_days]))"
    and "\<forall>w\<in>set (out_waits three_days_result).
        \<exists>d e. d < ndays three_days \<and> warmup three_days \<le> real d
        \<and> e \<in> set (day_attended three_days d) \<and> e \<in> set (day_services three_days d)
        \<and> e \<le> d \<and> w = int d - int e"
    and "nSeen (out_metrics three_days_result) = length (out_waits three_days_result)"
    using T by blast+
  then show ?thesis
    using m c three_days_run by blast
qed

theorem zero_capacity_queue_grows_witness:
  "capacityPerDay zero_capacity = 0 \<and> 0 < arrivalRate zero_capacity
   \<and> (\<exists>r. simulate zero_capacity = Some (Inr r) \<and> sorted (out_queueSizes r) \<and> out_waits r = [])"
proof -
  have c: "capacityPerDay zero_capacity = 0" and a: "0 < arrivalRate zero_capacity"
    by (simp_all add: zero_capacity_def scenario1_def)
  have "new_Array_fill0 (days zero_capacity + rebookDelay zero_capacity + 2) = Inr (replicate 189 0)"
    by (simp add: zero_capacity_def scenario1_def new_Array_fill0_def)
  then obtain r where r: "simulate zero_capacity = Some (Inr r)"
    using simulate_returns by blast
  show ?thesis
    using zero_capacity_queue_grows [OF r c a] r c a by blast
qed

theorem median_le_p90_witness:
  "simulate two_days = Some (Inr two_days_result) \<and> out_waits two_days_result \<noteq> []
   \<and> (\<exists>a b. quantile (out_waits two_days_result) (1 / 2) = Num a
        \<and> quantile (out_waits two_days_result) (9 / 10) = Num b
        \<and> medianWait (out_metrics two_days_result) = Num a
        \<and> p90Wait (out_metrics two_days_result) = Num b \<and> a \<le> b)"
proof -
  have ne: "out_waits two_days_result \<noteq> []"
    by (simp add: two_days_result_def)
  show ?thesis
    using median_le_p90 [OF two_days_run ne] two_days_run ne by blast
qed

theorem rebooking_never_dropped_witness:
  "rebookDelay scenario1 = real 7 \<and> days scenario1 = real 180 \<and> (1::nat) \<le> 180
   \<and> sim_run scenario1 0 = Some (init_state scenario1 (replicate 189 0)) \<and> (0::nat) < 180
   \<and> length (futureAdds (init_state scenario1 (replicate 189 0))) = 180 + 7 + 2
   \<and> length (futureAdds (rebooking_state)) = length (futureAdds (init_state scenario1 (replicate 189 0)))
   \<and> 0 + nat (max 0 \<lfloor>rebookDelay scenario1\<rfloor>) = 0 + 7
   \<and> 0 + nat (max 0 \<lfloor>rebookDelay scenario1\<rfloor>) < length (futureAdds rebooking_state)
   \<and> fst (mulberry32_next (rng_a rebooking_state)) < dnaRate scenario1 / 100
   \<and> fst (mulberry32_next (snd (mulberry32_next (rng_a rebooking_state)))) < rebookRate scenario1 / 100
   \<and> futureAdds (service_step scenario1 0 0 rebooking_state) =
        (futureAdds rebooking_state)[7 := futureAdds rebooking_state ! 7 + 1]"
proof -
  have h: "rebookDelay scenario1 = real 7" "days scenario1 = real 180"
    by (simp_all add: scenario1_def)
  have s: "sim_run scenario1 0 = Some (init_state scenario1 (replicate 189 0))"
    by (simp add: sim_run_def scenario1_def new_Array_fill0_def)
  have len: "length (futureAdds rebooking_state)
      = length (futureAdds (init_state scenario1 (replicate 189 0)))"
    by (simp add: rebooking_state_def init_state_def)
  have u: "fst (mulberry32_next (rng_a rebooking_state)) < dnaRate scenario1 / 100"
      "fst (mulberry32_next (snd (mulberry32_next (rng_a rebooking_state))))
         < rebookRate scenario1 / 100"
    by (simp_all add: rebooking_state_def scenario1_def draws_seed5)
  have rd: "nat (max 0 \<lfloor>rebookDelay scenario1\<rfloor>) = 7"
    by (simp add: scenario1_def)
  have n: "(1::nat) \<le> 180" and d: "(0::nat) < 180"
    by simp_all
  note R = rebooking_never_dropped [OF h n s d]
  have A: "length (futureAdds (init_state scenario1 (replicate 189 0))) = 180 + 7 + 2"
    using R by (rule conjunct1)
  have B: "let returnDay = 0 + nat (max 0 \<lfloor>rebookDelay scenario1\<rfloor>);
               u1 = fst (mulberry32_next (rng_a rebooking_state));
               u2 = fst (mulberry32_next (snd (mulberry32_next (rng_a rebooking_state))))
           in returnDay = 0 + 7 \<and> returnDay < length (futureAdds rebooking_state)
              \<and> length (futureAdds (service_step scenario1 0 0 rebooking_state))
                  = length (futureAdds (init_state scenario1 (replicate 189 0)))
              \<and> (u1 < dnaRate scenario1 / 100 \<and> u2 < rebookRate scenario1 / 100 \<longrightarrow>
                   futureAdds (service_step scenario1 0 0 rebooking_state) =
                     (futureAdds rebooking_state)
                       [returnDay := futureAdds rebooking_state ! returnDay + 1])"
    using R len by blast
  have C: "futureAdds (service_step scenario1 0 0 rebooking_state) =
      (futureAdds rebooking_state)[7 := futureAdds rebooking_state ! 7 + 1]"
    using B u unfolding Let_def rd by simp
  have D: "0 + nat (max 0 \<lfloor>rebookDelay scenario1\<rfloor>) < length (futureAdds rebooking_state)"
    using B unfolding Let_def by blast
  show ?thesis
    using h s A len u C D by (simp add: rd)
qed

theorem quantile_nearest_rank_witness:
  "(simulate zero_demand = Some (Inr zero_demand_result) \<and> out_waits zero_demand_result = []
      \<and> quantile (out_waits zero_demand_result) (1 / 2) = Null
      \<and> mean (out_waits zero_demand_result) = Null
      \<and> withinT (out_waits zero_demand_result) 28 = Null
      \<and> medianWait (out_metrics zero_demand_result) = quantile (out_waits zero_demand_result) (1 / 2))
   \<and> (simulate two_days = Some (Inr two_days_result) \<and> out_waits two_days_result \<noteq> []
      \<and> (0::real) \<le> 9 / 10 \<and> (9 / 10 :: real) \<le> 1
      \<and> sorted (out_waits two_days_result)
      \<and> nat \<lfloor>(real (length (out_waits two_days_result)) - 1) * (9 / 10)\<rfloor>
           < length (out_waits two_days_result)
      \<and> quantile (out_waits two_days_result) (9 / 10) =
           Num (real_of_int (out_waits two_days_result !
             nat \<lfloor>(real (length (out_waits two_days_result)) - 1) * (9 / 10)\<rfloor>))
      \<and> p90Wait (out_metrics two_days_result) = quantile (out_waits two_days_result) (9 / 10))"
proof -
  have e: "out_waits zero_demand_result = []"
    by (simp add: zero_demand_result_def)
  have ne: "out_waits two_days_result \<noteq> []"
    by (simp add: two_days_result_def)
  have q: "(0::real) \<le> 9 / 10 \<and> (9 / 10 :: real) \<le> 1"
    by simp
  show ?thesis
    using quantile_nearest_rank [OF zero_demand_run] quantile_nearest_rank [OF two_days_run]
      zero_demand_run two_days_run e ne q
    by blast
qed

end
